theory Spec2Isabelle
  imports Complex_Main "HOL-Library.AList" "HOL-Library.Sublist" "HOL-Library.Multiset"
    "HOL-Library.Log_Nat"
begin

section \<open>Data model\<close>

text \<open>
  The expense record of \<^verbatim>\<open>types.ts\<close>, built in three layers so that the two
  \<^verbatim>\<open>Omit<Expense, ...>\<close> types of the entry form are records too. The field \<^verbatim>\<open>id\<close>
  is called \<open>expense_id\<close> here (\<open>id\<close> is the identity function of HOL). A category is
  the string value of the \<^verbatim>\<open>Category\<close> enum: at run time a record read from storage or
  returned by the receipt parser may carry any string there.

  The records leave the type of the amount open. The settlement engine is modelled on
  finite amounts with exact arithmetic (type \<open>expense\<close>, amounts rational); the search,
  the planner and the entry form on binary64 numbers (type \<open>Expense\<close>, after the
  section on these numbers below).
\<close>

record 'n item_base =
  description :: string
  amount :: 'n
  date :: string
  category :: string
  store :: string
  owner :: string
  originalAmount :: "'n option"

text \<open>\<^verbatim>\<open>Omit<Expense, 'id'>\<close>, what the entry form hands over.\<close>

record 'n new_expense_of = "'n item_base" +
  payer :: string

record 'n expense_of = "'n new_expense_of" +
  expense_id :: string

type_synonym expense = "rat expense_of"

subsection \<open>Numbers that may fail to be finite\<close>

text \<open>
  A computed JavaScript number is either finite or one of \<^verbatim>\<open>Infinity\<close>, \<^verbatim>\<open>-Infinity\<close>,
  \<^verbatim>\<open>NaN\<close>. \<open>Some r\<close> is the finite number \<open>r\<close>; \<open>None\<close> stands for the three
  non-finite values together. A sum or difference with a non-finite operand is not
  finite, and a finite number divided by zero is not finite (no exception is raised).
\<close>

type_synonym num = "rat option"

fun num_add :: "num \<Rightarrow> num \<Rightarrow> num" where
  "num_add (Some a) (Some b) = Some (a + b)"
| "num_add _ _ = None"

fun num_sub :: "num \<Rightarrow> num \<Rightarrow> num" where
  "num_sub (Some a) (Some b) = Some (a - b)"
| "num_sub _ _ = None"

fun num_div :: "num \<Rightarrow> nat \<Rightarrow> num" where
  "num_div (Some a) n = (if n = 0 then None else Some (a / of_nat n))"
| "num_div None n = None"

definition num_sum :: "num list \<Rightarrow> num" where
  "num_sum xs = foldl num_add (Some 0) xs"

section \<open>Settlement engine (SplitAnalysis.tsx, stats)\<close>

text \<open>
  \<^verbatim>\<open>data\<close> is a \<^verbatim>\<open>Record<string, {paid, consumed}>\<close>: an association list in
  insertion order, with one pair per key. It is read as a dictionary: a name is present
  exactly when it was stored (names that a JavaScript object inherits from its
  prototype, such as \<^verbatim>\<open>constructor\<close>, are not modelled as participant names). The
  section on the object table, further down, reads \<^verbatim>\<open>data\<close> as the object it is, and
  lemma \<open>stats_obj_plain\<close> says when the two readings agree.
\<close>

record entry =
  paid :: num
  consumed :: num

record balance = entry +
  net :: num

type_synonym data = "(string \<times> entry) list"

definition zero_entry :: entry where
  "zero_entry = \<lparr>paid = Some 0, consumed = Some 0\<rparr>"

text \<open>\<^verbatim>\<open>people.forEach(p => { data[p] = { paid: 0, consumed: 0 } })\<close>\<close>

definition init_data :: "string list \<Rightarrow> data" where
  "init_data people = foldl (\<lambda>d p. AList.update p zero_entry d) [] people"

text \<open>\<^verbatim>\<open>if (!data[k]) data[k] = { paid: 0, consumed: 0 }\<close>\<close>

definition ensure :: "string \<Rightarrow> data \<Rightarrow> data" where
  "ensure k d = (if map_of d k = None then AList.update k zero_entry d else d)"

text \<open>\<^verbatim>\<open>data[k].paid += x\<close> and \<^verbatim>\<open>data[k].consumed += x\<close>, for a key that is present.\<close>

definition add_paid :: "string \<Rightarrow> num \<Rightarrow> data \<Rightarrow> data" where
  "add_paid k x d = AList.map_entry k (\<lambda>r. r\<lparr>paid := num_add (paid r) x\<rparr>) d"

definition add_consumed :: "string \<Rightarrow> num \<Rightarrow> data \<Rightarrow> data" where
  "add_consumed k x d = AList.map_entry k (\<lambda>r. r\<lparr>consumed := num_add (consumed r) x\<rparr>) d"

text \<open>\<^verbatim>\<open>const splitAmount = e.amount / people.length\<close>: evaluated for every shared
  expense, whatever the length of \<^verbatim>\<open>people\<close>.\<close>

definition splitAmount :: "expense \<Rightarrow> string list \<Rightarrow> num" where
  "splitAmount e people = num_div (Some (amount e)) (length people)"

text \<open>\<^verbatim>\<open>people.forEach(p => { if (data[p]) data[p].consumed += splitAmount })\<close>\<close>

definition share_out :: "num \<Rightarrow> string list \<Rightarrow> data \<Rightarrow> data" where
  "share_out s people d =
     foldl (\<lambda>d p. if map_of d p \<noteq> None then add_consumed p s d else d) d people"

text \<open>The body of \<^verbatim>\<open>expenses.forEach\<close>.\<close>

definition step :: "string list \<Rightarrow> data \<Rightarrow> expense \<Rightarrow> data" where
  "step people d e =
     (let d1 = add_paid (payer e) (Some (amount e)) (ensure (payer e) d) in
      if owner e = ''Shared''
      then share_out (splitAmount e people) people d1
      else add_consumed (owner e) (Some (amount e)) (ensure (owner e) d1))"

definition with_net :: "entry \<Rightarrow> balance" where
  "with_net r = \<lparr>paid = paid r, consumed = consumed r, net = num_sub (paid r) (consumed r)\<rparr>"

definition stats :: "expense list \<Rightarrow> string list \<Rightarrow> (string \<times> balance) list" where
  "stats expenses people =
     map (\<lambda>(k, r). (k, with_net r)) (foldl (step people) (init_data people) expenses)"



section \<open>Binary64 numbers\<close>

text \<open>
  A JavaScript number is an IEEE 754 binary64 value. \<open>Fin r\<close> is the finite value \<open>r\<close>,
  a rational that binary64 holds; the other three are \<^verbatim>\<open>Infinity\<close>, \<^verbatim>\<open>-Infinity\<close> and
  \<^verbatim>\<open>NaN\<close>. (The type has a \<open>Fin r\<close> for every rational; every operation rounds its
  result to a value of binary64, and the concrete inputs used below are such values.)
  The two zeros are one value \<open>Fin 0\<close>: the code modelled with these numbers never
  divides by a computed zero, and comparing, printing and storing do not tell the zeros
  apart.

  \<open>rnd x\<close> is the binary64 value nearest to the rational \<open>x\<close>, a tie going to the even
  significand: with \<open>e\<close> the binary exponent of \<open>x\<close>, not below that of the subnormal
  range, the values near \<open>x\<close> are the multiples of \<open>2 ^ (e - 52)\<close>; what rounds to
  \<open>2 ^ 1024\<close> or more overflows.
\<close>

datatype double = Fin rat | PosInf | NegInf | NaN

definition pow2 :: "int \<Rightarrow> rat" where
  "pow2 e = (if e \<ge> 0 then 2 ^ nat e else 1 / 2 ^ nat (- e))"

text \<open>\<open>ilog2 a\<close>, for \<open>a > 0\<close>: the integer \<open>e\<close> with \<open>2 ^ e \<le> a < 2 ^ (e + 1)\<close>.\<close>

definition ilog2 :: "rat \<Rightarrow> int" where
  "ilog2 a =
     (let p = fst (quotient_of a); q = snd (quotient_of a);
          d = int (floorlog 2 (nat p)) - int (floorlog 2 (nat q))
      in if pow2 d \<le> a then d else d - 1)"

definition round_half_even :: "rat \<Rightarrow> int" where
  "round_half_even y =
     (let f = \<lfloor>y\<rfloor>; d = y - of_int f
      in if d < 1 / 2 then f else if d > 1 / 2 then f + 1 else if even f then f else f + 1)"

definition rnd :: "rat \<Rightarrow> double" where
  "rnd x =
     (if x = 0 then Fin 0
      else let a = \<bar>x\<bar>; e = max (ilog2 a) (- 1022); u = pow2 (e - 52);
               r = of_int (round_half_even (a / u)) * u
           in if r \<ge> pow2 1024 then (if x > 0 then PosInf else NegInf)
              else Fin (sgn x * r))"

text \<open>The arithmetic: the exact result, rounded; the non-finite cases as IEEE 754 has
  them. In \<open>fdiv\<close> a zero divisor is the positive zero.\<close>

fun fneg :: "double \<Rightarrow> double" where
  "fneg (Fin a) = Fin (- a)"
| "fneg PosInf = NegInf"
| "fneg NegInf = PosInf"
| "fneg NaN = NaN"

fun fadd :: "double \<Rightarrow> double \<Rightarrow> double" where
  "fadd (Fin a) (Fin b) = rnd (a + b)"
| "fadd NaN _ = NaN"
| "fadd _ NaN = NaN"
| "fadd PosInf NegInf = NaN"
| "fadd NegInf PosInf = NaN"
| "fadd PosInf _ = PosInf"
| "fadd NegInf _ = NegInf"
| "fadd (Fin a) b = b"

definition fsub :: "double \<Rightarrow> double \<Rightarrow> double" where
  "fsub a b = fadd a (fneg b)"

fun fmul :: "double \<Rightarrow> double \<Rightarrow> double" where
  "fmul (Fin a) (Fin b) = rnd (a * b)"
| "fmul NaN _ = NaN"
| "fmul _ NaN = NaN"
| "fmul PosInf (Fin b) = (if b = 0 then NaN else if b > 0 then PosInf else NegInf)"
| "fmul NegInf (Fin b) = (if b = 0 then NaN else if b > 0 then NegInf else PosInf)"
| "fmul (Fin a) PosInf = (if a = 0 then NaN else if a > 0 then PosInf else NegInf)"
| "fmul (Fin a) NegInf = (if a = 0 then NaN else if a > 0 then NegInf else PosInf)"
| "fmul PosInf PosInf = PosInf"
| "fmul NegInf NegInf = PosInf"
| "fmul PosInf NegInf = NegInf"
| "fmul NegInf PosInf = NegInf"

fun fdiv :: "double \<Rightarrow> double \<Rightarrow> double" where
  "fdiv (Fin a) (Fin b) =
     (if b = 0 then (if a = 0 then NaN else if a > 0 then PosInf else NegInf)
      else rnd (a / b))"
| "fdiv NaN _ = NaN"
| "fdiv _ NaN = NaN"
| "fdiv (Fin a) PosInf = Fin 0"
| "fdiv (Fin a) NegInf = Fin 0"
| "fdiv PosInf (Fin b) = (if b \<ge> 0 then PosInf else NegInf)"
| "fdiv NegInf (Fin b) = (if b \<ge> 0 then NegInf else PosInf)"
| "fdiv PosInf PosInf = NaN"
| "fdiv PosInf NegInf = NaN"
| "fdiv NegInf PosInf = NaN"
| "fdiv NegInf NegInf = NaN"

text \<open>\<^verbatim>\<open>a < b\<close>, false when an operand is \<^verbatim>\<open>NaN\<close>; \<^verbatim>\<open>a > b\<close> is \<open>dlt b a\<close>.\<close>

fun dlt :: "double \<Rightarrow> double \<Rightarrow> bool" where
  "dlt (Fin a) (Fin b) = (a < b)"
| "dlt NaN _ = False"
| "dlt _ NaN = False"
| "dlt _ NegInf = False"
| "dlt PosInf _ = False"
| "dlt NegInf _ = True"
| "dlt (Fin a) PosInf = True"

text \<open>\<^verbatim>\<open>Math.max(0, x)\<close>\<close>

fun fmax0 :: "double \<Rightarrow> double" where
  "fmax0 (Fin a) = Fin (max 0 a)"
| "fmax0 PosInf = PosInf"
| "fmax0 NegInf = Fin 0"
| "fmax0 NaN = NaN"

text \<open>
  \<^verbatim>\<open>parseFloat(x.toFixed(2))\<close>. For a finite \<open>x\<close> below \<open>10 ^ 21\<close> in magnitude,
  \<^verbatim>\<open>toFixed(2)\<close> writes \<open>n / 100\<close> for the integer \<open>n\<close> nearest to \<open>100 * x\<close>, computed on
  the exact value of \<open>x\<close>, a tie going away from zero; \<^verbatim>\<open>parseFloat\<close> reads the
  decimal back as the nearest binary64 value. From \<open>10 ^ 21\<close> on, and for the
  non-finite values, \<^verbatim>\<open>toFixed\<close> writes the number as \<^verbatim>\<open>String\<close> does, and reading
  that gives the number back.
\<close>

fun toFixed2 :: "double \<Rightarrow> double" where
  "toFixed2 (Fin x) =
     (if \<bar>x\<bar> \<ge> 10 ^ 21 then Fin x
      else rnd (sgn x * of_int \<lfloor>\<bar>x\<bar> * 100 + 1 / 2\<rfloor> / 100))"
| "toFixed2 d = d"

text \<open>The record of the application (\<^verbatim>\<open>Expense\<close> in \<^verbatim>\<open>types.ts\<close>), its amount a
  binary64 number. The search, the planner and the form are modelled on it.\<close>

type_synonym Expense = "double expense_of"

section \<open>Strings and dates\<close>

text \<open>
  A string is the list of the bytes of its UTF-8 form, the text being well-formed
  Unicode. The code compares strings, joins them and searches one in another
  (\<open>str_includes s q\<close> is \<^verbatim>\<open>s.includes(q)\<close>); on well-formed text these give the same
  on bytes as on the UTF-16 units that JavaScript counts.

  \<^verbatim>\<open>toLowerCase\<close> is a function of the runtime: the analytics below take it as a
  parameter \<open>lower\<close>. \<open>lowerASCII\<close> is its value on text made of ASCII characters
  (A to Z are folded), used to run the functions on concrete inputs.
\<close>

definition toLowerChar :: "char \<Rightarrow> char" where
  "toLowerChar c =
     (case map_of (zip ''ABCDEFGHIJKLMNOPQRSTUVWXYZ'' ''abcdefghijklmnopqrstuvwxyz'') c of
        Some l \<Rightarrow> l
      | None \<Rightarrow> c)"

definition lowerASCII :: "string \<Rightarrow> string" where
  "lowerASCII s = map toLowerChar s"

text \<open>
  \<^verbatim>\<open>trim\<close> removes the white space and line terminators of ECMAScript at both ends:
  U+0009 to U+000D, U+0020, U+00A0, U+1680, U+2000 to U+200A, U+2028, U+2029, U+202F,
  U+205F, U+3000 and U+FEFF, here in UTF-8.
\<close>

definition ws_seqs :: "string list" where
  "ws_seqs =
     [[CHR 0x09], [CHR 0x0A], [CHR 0x0B], [CHR 0x0C], [CHR 0x0D], [CHR 0x20],
      [CHR 0xC2, CHR 0xA0], [CHR 0xE1, CHR 0x9A, CHR 0x80],
      [CHR 0xE2, CHR 0x80, CHR 0x80], [CHR 0xE2, CHR 0x80, CHR 0x81],
      [CHR 0xE2, CHR 0x80, CHR 0x82], [CHR 0xE2, CHR 0x80, CHR 0x83],
      [CHR 0xE2, CHR 0x80, CHR 0x84], [CHR 0xE2, CHR 0x80, CHR 0x85],
      [CHR 0xE2, CHR 0x80, CHR 0x86], [CHR 0xE2, CHR 0x80, CHR 0x87],
      [CHR 0xE2, CHR 0x80, CHR 0x88], [CHR 0xE2, CHR 0x80, CHR 0x89],
      [CHR 0xE2, CHR 0x80, CHR 0x8A], [CHR 0xE2, CHR 0x80, CHR 0xA8],
      [CHR 0xE2, CHR 0x80, CHR 0xA9], [CHR 0xE2, CHR 0x80, CHR 0xAF],
      [CHR 0xE2, CHR 0x81, CHR 0x9F], [CHR 0xE3, CHR 0x80, CHR 0x80],
      [CHR 0xEF, CHR 0xBB, CHR 0xBF]]"

text \<open>\<open>strip ws s\<close> removes from the front of \<open>s\<close> the sequences of \<open>ws\<close>, as long as
  one of them is a prefix.\<close>

function strip :: "string list \<Rightarrow> string \<Rightarrow> string" where
  "strip ws s =
     (case find (\<lambda>w. w \<noteq> [] \<and> prefix w s) ws of
        Some w \<Rightarrow> strip ws (drop (length w) s)
      | None \<Rightarrow> s)"
  by pat_completeness auto
termination
  by (relation "measure (\<lambda>(ws, s). length s)") (auto simp: find_Some_iff prefix_def)

declare strip.simps [simp del]

definition trim :: "string \<Rightarrow> string" where
  "trim s = rev (strip (map rev ws_seqs) (rev (strip ws_seqs s)))"


text \<open>
  The analytics read a date string through \<^verbatim>\<open>new Date(s).getTime()\<close>, the time stamp
  in milliseconds. The functions below take that reading as a parameter \<open>tm\<close>; every
  date that occurs is taken to be a valid date, so the time stamp is an integer.
  \<open>isoTime\<close> is its value on a date of the form \<^verbatim>\<open>YYYY-MM-DD\<close> (midnight UTC), used
  to run the functions on concrete inputs.
\<close>

definition digitVal :: "char \<Rightarrow> int" where
  "digitVal c = int (of_char c) - 48"

definition digits :: "string \<Rightarrow> int" where
  "digits s = foldl (\<lambda>a c. 10 * a + digitVal c) 0 s"

definition days_from_civil :: "int \<Rightarrow> int \<Rightarrow> int \<Rightarrow> int" where
  "days_from_civil y m d =
     (let y' = (if m \<le> 2 then y - 1 else y);
          era = y' div 400;
          yoe = y' - era * 400;
          mp = (m + 9) mod 12;
          doy = (153 * mp + 2) div 5 + d - 1;
          doe = yoe * 365 + yoe div 4 - yoe div 100 + doy
      in era * 146097 + doe - 719468)"

definition isoTime :: "string \<Rightarrow> int" where
  "isoTime s =
     86400000 * days_from_civil (digits (take 4 s)) (digits (take 2 (drop 5 s)))
                                (digits (take 2 (drop 8 s)))"

definition day_ms :: int where
  "day_ms = 1000 * 60 * 60 * 24"

text \<open>\<^verbatim>\<open>Math.round\<close>: the nearest integer, a tie going up.\<close>

definition js_round :: "rat \<Rightarrow> int" where
  "js_round x = \<lfloor>x + 1 / 2\<rfloor>"

section \<open>Objects used as tables\<close>

text \<open>
  The grouping loops keep their tables in object literals (\<^verbatim>\<open>Record<string, ...>\<close>,
  starting from \<^verbatim>\<open>{}\<close>). A table is the association list of the properties the loop
  has stored, in the order they were stored. Three things set the object apart from a
  dictionary, and all three are in the model.

  \<^item> Reading \<^verbatim>\<open>table[k]\<close> also finds what the object inherits from
    \<^verbatim>\<open>Object.prototype\<close>: for the names of \<open>inherited_names\<close> the test
    \<^verbatim>\<open>if (!table[k])\<close> sees a function (an object for \<^verbatim>\<open>__proto__\<close>), which is
    truthy, although the table has no such property of its own.
  \<^item> An update \<^verbatim>\<open>table[k].f += x\<close> of a name that is only inherited changes
    the inherited object and not the table; reading a field the inherited object does
    not have gives \<^verbatim>\<open>undefined\<close>, and calling a method on that throws a
    \<^verbatim>\<open>TypeError\<close>.
  \<^item> \<^verbatim>\<open>Object.keys\<close>, \<^verbatim>\<open>Object.values\<close> and \<^verbatim>\<open>Object.entries\<close> list the
    properties of the table itself: first the keys that are array indices (the decimal
    form of an integer from 0 to 4294967294), in ascending numeric order, then the other
    keys in the order they were stored.
\<close>

datatype js_error = TypeError

definition inherited_names :: "string list" where
  "inherited_names =
     [''constructor'', ''__defineGetter__'', ''__defineSetter__'', ''hasOwnProperty'',
      ''__lookupGetter__'', ''__lookupSetter__'', ''isPrototypeOf'',
      ''propertyIsEnumerable'', ''toString'', ''valueOf'', ''__proto__'',
      ''toLocaleString'']"

definition js_truthy :: "(string \<times> 'a) list \<Rightarrow> string \<Rightarrow> bool" where
  "js_truthy table k = (map_of table k \<noteq> None \<or> k \<in> set inherited_names)"

definition is_array_index :: "string \<Rightarrow> bool" where
  "is_array_index k =
     (k \<noteq> [] \<and> (\<forall>c\<in>set k. c \<in> set ''0123456789'') \<and>
      (hd k \<noteq> CHR ''0'' \<or> length k = 1) \<and> digits k \<le> 4294967294)"

definition enum_order :: "('k \<Rightarrow> string) \<Rightarrow> 'k list \<Rightarrow> 'k list" where
  "enum_order key xs =
     sort_key (\<lambda>x. digits (key x)) (filter (\<lambda>x. is_array_index (key x)) xs) @
     filter (\<lambda>x. \<not> is_array_index (key x)) xs"

definition own_entries :: "(string \<times> 'a) list \<Rightarrow> (string \<times> 'a) list" where
  "own_entries table = enum_order fst table"

text \<open>A loop whose body may throw: the first error ends it.\<close>

fun fold_err :: "('s \<Rightarrow> 'a \<Rightarrow> js_error + 's) \<Rightarrow> 's \<Rightarrow> 'a list \<Rightarrow> js_error + 's" where
  "fold_err f s [] = Inr s"
| "fold_err f s (x # xs) = (case f s x of Inl err \<Rightarrow> Inl err | Inr s' \<Rightarrow> fold_err f s' xs)"

section \<open>Settlement engine on the object table\<close>

text \<open>
  The section on the settlement engine reads \<^verbatim>\<open>data\<close> as a dictionary. Here it is read as
  the object literal it is, so that payers and owners with inherited names are covered
  too. The table has its stored properties and a prototype: \<^verbatim>\<open>Object.prototype\<close> (here
  \<open>None\<close>) at first, and after \<^verbatim>\<open>data['__proto__'] = { paid: 0, consumed: 0 }\<close>, which
  the initialisation does for a participant named \<^verbatim>\<open>__proto__\<close>, that new object (here
  \<open>Some\<close> of its two fields), from which the table then inherits the properties
  \<^verbatim>\<open>paid\<close> and \<^verbatim>\<open>consumed\<close>, two numbers.

  \<open>holds t k\<close> is the truth value of \<^verbatim>\<open>data[k]\<close>: a stored entry, the prototype, an
  inherited function, or an inherited number other than zero. An update
  \<^verbatim>\<open>data[k].paid += x\<close> changes the stored entry when there is one; for the name
  \<^verbatim>\<open>__proto__\<close> it changes the prototype; for an inherited function it sets a property
  of that function and leaves the table as it is; for an inherited number it throws
  (the module is in strict mode). The result lists \<^verbatim>\<open>Object.keys(data)\<close>, the stored
  properties.
\<close>

record table =
  own :: data
  proto :: "entry option"

definition init_table :: "string list \<Rightarrow> table" where
  "init_table people =
     foldl (\<lambda>t p. if p = ''__proto__'' then t\<lparr>proto := Some zero_entry\<rparr>
                    else t\<lparr>own := AList.update p zero_entry (own t)\<rparr>)
       \<lparr>own = [], proto = None\<rparr> people"

definition inherited_number :: "table \<Rightarrow> string \<Rightarrow> num option" where
  "inherited_number t k =
     (case proto t of
        None \<Rightarrow> None
      | Some r \<Rightarrow> if k = ''paid'' then Some (paid r)
                  else if k = ''consumed'' then Some (consumed r) else None)"

definition holds :: "table \<Rightarrow> string \<Rightarrow> bool" where
  "holds t k =
     (map_of (own t) k \<noteq> None \<or>
      (k = ''__proto__'' \<or>
       (case inherited_number t k of
          Some n \<Rightarrow> n \<noteq> Some 0
        | None \<Rightarrow> k \<in> set inherited_names)))"

text \<open>\<^verbatim>\<open>if (!data[k]) data[k] = { paid: 0, consumed: 0 }\<close>: the assignment is reached only
  for a name other than \<^verbatim>\<open>__proto__\<close>, and stores a property.\<close>

definition ensure_obj :: "string \<Rightarrow> table \<Rightarrow> table" where
  "ensure_obj k t = (if \<not> holds t k then t\<lparr>own := AList.update k zero_entry (own t)\<rparr> else t)"

text \<open>\<^verbatim>\<open>data[k].paid += x\<close> and \<^verbatim>\<open>data[k].consumed += x\<close>, where \<^verbatim>\<open>data[k]\<close> holds.\<close>

definition update_obj :: "string \<Rightarrow> (entry \<Rightarrow> entry) \<Rightarrow> table \<Rightarrow> js_error + table" where
  "update_obj k f t =
     (if map_of (own t) k \<noteq> None then Inr (t\<lparr>own := AList.map_entry k f (own t)\<rparr>)
      else if k = ''__proto__'' then Inr (t\<lparr>proto := map_option f (proto t)\<rparr>)
      else if inherited_number t k \<noteq> None then Inl TypeError
      else Inr t)"

definition add_paid_obj :: "string \<Rightarrow> num \<Rightarrow> table \<Rightarrow> js_error + table" where
  "add_paid_obj k x t = update_obj k (\<lambda>r. r\<lparr>paid := num_add (paid r) x\<rparr>) t"

definition add_consumed_obj :: "string \<Rightarrow> num \<Rightarrow> table \<Rightarrow> js_error + table" where
  "add_consumed_obj k x t = update_obj k (\<lambda>r. r\<lparr>consumed := num_add (consumed r) x\<rparr>) t"

text \<open>\<^verbatim>\<open>people.forEach(p => { if (data[p]) data[p].consumed += splitAmount })\<close>\<close>

definition share_out_obj :: "num \<Rightarrow> string list \<Rightarrow> table \<Rightarrow> js_error + table" where
  "share_out_obj s people t =
     fold_err (\<lambda>t p. if holds t p then add_consumed_obj p s t else Inr t) t people"

definition step_obj :: "string list \<Rightarrow> table \<Rightarrow> expense \<Rightarrow> js_error + table" where
  "step_obj people t e =
     (case add_paid_obj (payer e) (Some (amount e)) (ensure_obj (payer e) t) of
        Inl err \<Rightarrow> Inl err
      | Inr t1 \<Rightarrow>
          if owner e = ''Shared''
          then share_out_obj (splitAmount e people) people t1
          else add_consumed_obj (owner e) (Some (amount e)) (ensure_obj (owner e) t1))"

definition stats_obj :: "expense list \<Rightarrow> string list \<Rightarrow> js_error + (string \<times> balance) list" where
  "stats_obj expenses people =
     (case fold_err (step_obj people) (init_table people) expenses of
        Inl err \<Rightarrow> Inl err
      | Inr t \<Rightarrow> Inr (map (\<lambda>(k, r). (k, with_net r)) (own_entries (own t))))"

section \<open>Replenishment predictor (ShelfLifeInsights, itemStats)\<close>

definition SHELF_LIFE_DAYS :: "(string \<times> int) list" where
  "SHELF_LIFE_DAYS =
     [(''Vegetables'', 7), (''Fruits'', 7), (''Meat & Seafood'', 3), (''Dairy & Eggs'', 14),
      (''Bakery'', 5), (''Pantry & Dry Goods'', 90), (''Frozen Foods'', 30),
      (''Snacks & Candy'', 21), (''Beverages'', 14), (''Alcohol'', 365),
      (''Deli & Prepared'', 4), (''Baby'', 14), (''Pet Supplies'', 30),
      (''Household & Cleaning'', 60), (''Personal Care & Pharmacy'', 45), (''Other'', 14)]"

record item_group =
  dates :: "string list"
  category_g :: string
  name_g :: string

type_synonym groups = "(string \<times> item_group) list"

definition normName :: "(string \<Rightarrow> string) \<Rightarrow> Expense \<Rightarrow> string" where
  "normName lower e = lower (trim (description e))"

text \<open>
  The body of the grouping loop, which ShelfLifeInsights and StorePlanner both contain,
  word for word:
  \<^verbatim>\<open>if (!items[normName]) items[normName] = { dates: [], category: e.category, name: e.description };
  items[normName].dates.push(e.date);
  if (new Date(e.date) > new Date(items[normName].dates[0])) items[normName].name = e.description;\<close>
  For a name that is only inherited no group is stored, \<^verbatim>\<open>items[normName].dates\<close> is
  \<^verbatim>\<open>undefined\<close> and the \<^verbatim>\<open>push\<close> throws.
\<close>

definition group_step :: "(string \<Rightarrow> string) \<Rightarrow> (string \<Rightarrow> int) \<Rightarrow> groups \<Rightarrow> Expense \<Rightarrow> js_error + groups" where
  "group_step lower tm items e =
     (let k = normName lower e;
          items1 = (if \<not> js_truthy items k
                    then AList.update k
                           \<lparr>dates = [], category_g = category e, name_g = description e\<rparr> items
                    else items)
      in case map_of items1 k of
           None \<Rightarrow> Inl TypeError
         | Some _ \<Rightarrow>
             (let items2 = AList.map_entry k (\<lambda>g. g\<lparr>dates := dates g @ [date e]\<rparr>) items1
              in Inr (AList.map_entry k
                        (\<lambda>g. if tm (date e) > tm (hd (dates g))
                             then g\<lparr>name_g := description e\<rparr> else g)
                        items2)))"

definition group_items :: "(string \<Rightarrow> string) \<Rightarrow> (string \<Rightarrow> int) \<Rightarrow> Expense list \<Rightarrow> js_error + groups" where
  "group_items lower tm expenses = fold_err (group_step lower tm) [] expenses"

text \<open>\<^verbatim>\<open>dates.sort((a, b) => new Date(b).getTime() - new Date(a).getTime())\<close>: a stable
  sort, newest first.\<close>

definition sortDates :: "(string \<Rightarrow> int) \<Rightarrow> string list \<Rightarrow> string list" where
  "sortDates tm ds = sort_key (\<lambda>d. - tm d) ds"

text \<open>\<^verbatim>\<open>Math.floor((now.getTime() - lastDate.getTime()) / (1000 * 60 * 60 * 24))\<close>, with
  \<^verbatim>\<open>lastDate = new Date(sortedDates[0])\<close>. A group always holds a date: the expense
  that creates it is pushed at once (lemma \<open>group_member\<close> below).\<close>

definition daysSince_of :: "(string \<Rightarrow> int) \<Rightarrow> int \<Rightarrow> string list \<Rightarrow> int" where
  "daysSince_of tm now sortedDates =
     \<lfloor>(of_int (now - tm (hd sortedDates)) :: rat) / of_int day_ms\<rfloor>"

fun totalDays :: "(string \<Rightarrow> int) \<Rightarrow> string list \<Rightarrow> int" where
  "totalDays tm (a # b # ds) = (tm a - tm b) + totalDays tm (b # ds)"
| "totalDays tm ds = 0"

definition avgCycle_of :: "(string \<Rightarrow> int) \<Rightarrow> string list \<Rightarrow> int option" where
  "avgCycle_of tm sortedDates =
     (if length sortedDates \<ge> 2
      then Some (js_round ((of_int (totalDays tm sortedDates) / of_nat (length sortedDates - 1))
                           / of_int day_ms))
      else None)"

text \<open>\<^verbatim>\<open>SHELF_LIFE_DAYS[category] || 14\<close>\<close>

definition shelfLife_of :: "string \<Rightarrow> int" where
  "shelfLife_of cat =
     (case map_of SHELF_LIFE_DAYS cat of
        Some n \<Rightarrow> if n = 0 then 14 else n
      | None \<Rightarrow> 14)"

datatype status = StockUp | RunningLow | Good | LikelyExpired | Unknown

definition status_of :: "int \<Rightarrow> int option \<Rightarrow> int \<Rightarrow> status" where
  "status_of daysSince avgC shelfLife =
     (case avgC of
        Some c \<Rightarrow>
          if daysSince \<ge> c then StockUp
          else if (of_int daysSince :: rat) \<ge> of_int c * (8 / 10) then RunningLow
          else Good
      | None \<Rightarrow>
          if daysSince \<ge> shelfLife then StockUp
          else if (of_int daysSince :: rat) \<ge> of_int shelfLife * (9 / 10) then RunningLow
          else Good)"

record itemStat =
  name_s :: string
  category_s :: string
  lastPurchased :: int
  daysSinceLastPurchase :: int
  avgCycle :: "int option"
  purchaseCount :: nat
  genericShelfLife :: int
  status_s :: status

definition item_stat :: "(string \<Rightarrow> int) \<Rightarrow> int \<Rightarrow> item_group \<Rightarrow> itemStat" where
  "item_stat tm now item =
     (let sortedDates = sortDates tm (dates item);
          daysSince = daysSince_of tm now sortedDates;
          avgC = avgCycle_of tm sortedDates;
          shelfLife = shelfLife_of (category_g item)
      in \<lparr>name_s = name_g item, category_s = category_g item,
          lastPurchased = tm (hd sortedDates), daysSinceLastPurchase = daysSince,
          avgCycle = avgC, purchaseCount = length sortedDates,
          genericShelfLife = shelfLife, status_s = status_of daysSince avgC shelfLife\<rparr>)"

definition score :: "status \<Rightarrow> int" where
  "score s = (if s = StockUp then 4 else if s = RunningLow then 3 else if s = Good then 2 else 1)"

text \<open>\<^verbatim>\<open>Object.values(items).map(...)\<close>, then the stable sort by urgency.\<close>

definition itemStats :: "(string \<Rightarrow> string) \<Rightarrow> (string \<Rightarrow> int) \<Rightarrow> int \<Rightarrow> Expense list \<Rightarrow> js_error + itemStat list" where
  "itemStats lower tm now expenses =
     (case group_items lower tm expenses of
        Inl err \<Rightarrow> Inl err
      | Inr items \<Rightarrow>
          Inr (sort_key (\<lambda>i. - score (status_s i))
                 (map (\<lambda>(k, item). item_stat tm now item) (own_entries items))))"

definition shoppingList :: "(string \<Rightarrow> string) \<Rightarrow> (string \<Rightarrow> int) \<Rightarrow> int \<Rightarrow> Expense list \<Rightarrow> js_error + itemStat list" where
  "shoppingList lower tm now expenses =
     (case itemStats lower tm now expenses of
        Inl err \<Rightarrow> Inl err
      | Inr sts \<Rightarrow> Inr (filter (\<lambda>i. status_s i = StockUp \<or> status_s i = RunningLow) sts))"

section \<open>Store optimizer (StorePlanner, plan)\<close>

definition isNeeded_of :: "int \<Rightarrow> int option \<Rightarrow> int \<Rightarrow> bool" where
  "isNeeded_of daysSince avgC shelfLife =
     (case avgC of
        Some c \<Rightarrow> (of_int daysSince :: rat) \<ge> of_int c * (9 / 10)
      | None \<Rightarrow> (of_int daysSince :: rat) \<ge> of_int shelfLife * (9 / 10))"

definition group_needed :: "(string \<Rightarrow> int) \<Rightarrow> int \<Rightarrow> item_group \<Rightarrow> bool" where
  "group_needed tm now data =
     (let sortedDates = sortDates tm (dates data)
      in isNeeded_of (daysSince_of tm now sortedDates) (avgCycle_of tm sortedDates)
           (shelfLife_of (category_g data)))"

definition neededItems :: "(string \<Rightarrow> int) \<Rightarrow> int \<Rightarrow> groups \<Rightarrow> string list" where
  "neededItems tm now itemGroups =
     map fst (filter (\<lambda>(normName, data). group_needed tm now data) (own_entries itemGroups))"

record store_stat =
  sum_s :: double
  count_s :: nat

text \<open>\<^verbatim>\<open>const s = e.store || 'Unknown'\<close> and the per-store sums of one item. For a store
  name that is only inherited the sums are added to the inherited object, and the
  table is left as it is.\<close>

definition store_key :: "Expense \<Rightarrow> string" where
  "store_key e = (if store e = [] then ''Unknown'' else store e)"

definition storeStats_step :: "(string \<times> store_stat) list \<Rightarrow> Expense \<Rightarrow> (string \<times> store_stat) list" where
  "storeStats_step st e =
     (let s = store_key e;
          st1 = (if \<not> js_truthy st s then AList.update s \<lparr>sum_s = Fin 0, count_s = 0\<rparr> st else st)
      in AList.map_entry s (\<lambda>r. \<lparr>sum_s = fadd (sum_s r) (amount e), count_s = count_s r + 1\<rparr>) st1)"

definition storeStats :: "Expense list \<Rightarrow> (string \<times> store_stat) list" where
  "storeStats itemExpenses = foldl storeStats_step [] itemExpenses"

definition avg_of :: "store_stat \<Rightarrow> double" where
  "avg_of r = fdiv (sum_s r) (Fin (of_nat (count_s r)))"

text \<open>The search for the cheapest store, over \<^verbatim>\<open>Object.entries(storeStats)\<close>:
  \<^verbatim>\<open>minAvg\<close> starts at \<^verbatim>\<open>Infinity\<close> and \<^verbatim>\<open>cheapestStore\<close> at the empty string; a
  store replaces the current one only when its average is strictly smaller.\<close>

definition cheapest_step :: "string \<times> double \<Rightarrow> string \<times> store_stat \<Rightarrow> string \<times> double" where
  "cheapest_step acc entry =
     (let avg = avg_of (snd entry)
      in if dlt avg (snd acc) then (fst entry, avg) else acc)"

definition cheapest :: "(string \<times> store_stat) list \<Rightarrow> string \<times> double" where
  "cheapest st = foldl cheapest_step ([], PosInf) (own_entries st)"

datatype reason = Exclusive | BestPrice | Needed

record plannedItem =
  name_p :: string
  category_p :: string
  reason_p :: reason
  avgPriceHere :: double
  cheapestStore :: "string option"
  savings :: "double option"
  isNeeded :: bool

record plan_result =
  smartBuys :: "plannedItem list"
  otherNeeds :: "plannedItem list"

text \<open>
  \<^verbatim>\<open>storeStats[selectedStore] ? storeStats[selectedStore].sum / storeStats[selectedStore].count : null\<close>:
  \<open>None\<close> is \<^verbatim>\<open>null\<close>. For a selected store that is only an inherited name the
  test is truthy and the quotient of two fields the inherited object does not hold as
  numbers is \<^verbatim>\<open>NaN\<close>.
\<close>

definition avgAtSelected_of :: "(string \<times> store_stat) list \<Rightarrow> string \<Rightarrow> double option" where
  "avgAtSelected_of st selectedStore =
     (case map_of st selectedStore of
        Some r \<Rightarrow> Some (avg_of r)
      | None \<Rightarrow> if selectedStore \<in> set inherited_names then Some NaN else None)"

text \<open>What the second loop does for one needed item: the flag says whether the item is
  pushed to \<^verbatim>\<open>smartBuys\<close> (otherwise to \<^verbatim>\<open>otherNeeds\<close>).\<close>

definition plan_item :: "(string \<Rightarrow> string) \<Rightarrow> Expense list \<Rightarrow> string \<Rightarrow> string \<Rightarrow> item_group \<Rightarrow> bool \<times> plannedItem" where
  "plan_item lower expenses selectedStore nm itemData =
     (let itemExpenses = filter (\<lambda>e. normName lower e = nm) expenses;
          st = storeStats itemExpenses;
          uniqueStore = (case map fst (own_entries st) of [s] \<Rightarrow> Some s | _ \<Rightarrow> None);
          c = cheapest st
      in case avgAtSelected_of st selectedStore of
           Some a \<Rightarrow>
             if uniqueStore = Some selectedStore
             then (True, \<lparr>name_p = name_g itemData, category_p = category_g itemData,
                          reason_p = Exclusive, avgPriceHere = a, cheapestStore = None,
                          savings = None, isNeeded = True\<rparr>)
             else if fst c = selectedStore
             then (True, \<lparr>name_p = name_g itemData, category_p = category_g itemData,
                          reason_p = BestPrice, avgPriceHere = a, cheapestStore = None,
                          savings = None, isNeeded = True\<rparr>)
             else (False, \<lparr>name_p = name_g itemData, category_p = category_g itemData,
                           reason_p = Needed, avgPriceHere = a, cheapestStore = Some (fst c),
                           savings = Some (fsub a (snd c)), isNeeded = True\<rparr>)
         | None \<Rightarrow>
             (False, \<lparr>name_p = name_g itemData, category_p = category_g itemData,
                      reason_p = Needed, avgPriceHere = Fin 0, cheapestStore = Some (fst c),
                      savings = None, isNeeded = True\<rparr>))"

definition plan_step :: "(string \<Rightarrow> string) \<Rightarrow> Expense list \<Rightarrow> string \<Rightarrow> string list \<Rightarrow> plan_result \<Rightarrow> string \<times> item_group \<Rightarrow> plan_result" where
  "plan_step lower expenses selectedStore needed acc g =
     (if fst g \<notin> set needed then acc
      else let r = plan_item lower expenses selectedStore (fst g) (snd g)
           in if fst r then acc\<lparr>smartBuys := smartBuys acc @ [snd r]\<rparr>
              else acc\<lparr>otherNeeds := otherNeeds acc @ [snd r]\<rparr>)"

definition plan :: "(string \<Rightarrow> string) \<Rightarrow> (string \<Rightarrow> int) \<Rightarrow> int \<Rightarrow> Expense list \<Rightarrow> string \<Rightarrow> js_error + plan_result" where
  "plan lower tm now expenses selectedStore =
     (if selectedStore = [] then Inr \<lparr>smartBuys = [], otherNeeds = []\<rparr>
      else case group_items lower tm expenses of
             Inl err \<Rightarrow> Inl err
           | Inr itemGroups \<Rightarrow>
               (let needed = neededItems tm now itemGroups
                in Inr (foldl (plan_step lower expenses selectedStore needed)
                          \<lparr>smartBuys = [], otherNeeds = []\<rparr> (own_entries itemGroups))))"

section \<open>Search (GlobalSearch, results)\<close>

text \<open>The bills are kept in a \<^verbatim>\<open>Map\<close>, which holds its keys in the order they were
  first set and inherits nothing.\<close>

record bill =
  store_b :: string
  date_b :: string
  total :: double
  count_b :: nat

record search_result =
  bills :: "bill list"
  items :: "Expense list"








section \<open>Saving a reviewed bill (ExpenseForm, handleFinalSave)\<close>

text \<open>\<^verbatim>\<open>Omit<Expense, 'id' | 'payer' | 'owner'> & { tempId, owner }\<close>, and
  \<^verbatim>\<open>Omit<Expense, 'id'>\<close>, what the form hands over.\<close>

record pendingItem = "double item_base" +
  tempId :: string

type_synonym new_expense = "double new_expense_of"

datatype billType = Personal | SharedBill

text \<open>The discount field is read with \<^verbatim>\<open>parseFloat(globalDiscount) || 0\<close>; the argument
  \<open>globalDiscount\<close> is what \<^verbatim>\<open>parseFloat\<close> returns, \<^verbatim>\<open>NaN\<close> for an empty or
  unreadable field.\<close>

definition discountVal_of :: "double \<Rightarrow> double" where
  "discountVal_of globalDiscount =
     (if globalDiscount = NaN \<or> globalDiscount = Fin 0 then Fin 0 else globalDiscount)"

definition finalAmount_of :: "double \<Rightarrow> double \<Rightarrow> pendingItem \<Rightarrow> double" where
  "finalAmount_of discountVal totalBillAmount item =
     (if dlt (Fin 0) discountVal \<and> dlt (Fin 0) totalBillAmount
      then let ratio = fdiv (amount item) totalBillAmount;
               itemDiscountShare = fmul discountVal ratio
           in fmax0 (fsub (amount item) itemDiscountShare)
      else amount item)"

definition handleFinalSave :: "pendingItem list \<Rightarrow> double \<Rightarrow> billType \<Rightarrow> string \<Rightarrow> new_expense list" where
  "handleFinalSave pendingItems globalDiscount bt pyr =
     (let discountVal = discountVal_of globalDiscount;
          totalBillAmount = foldl (\<lambda>sum item. fadd sum (amount item)) (Fin 0) pendingItems;
          finalPayer = (if bt = Personal then ''Me'' else pyr)
      in map (\<lambda>item.
            \<lparr>description = description item,
             amount = toFixed2 (finalAmount_of discountVal totalBillAmount item),
             date = date item, category = category item, store = store item,
             owner = (if bt = Personal then ''Me'' else owner item),
             originalAmount = Some (amount item),
             payer = finalPayer\<rparr>) pendingItems)"


section \<open>Specification-side definitions\<close>

subsection \<open>Settlement\<close>








text \<open>An expense literal, for concrete inputs.\<close>

definition mk_expense :: "string \<Rightarrow> rat \<Rightarrow> string \<Rightarrow> string \<Rightarrow> string \<Rightarrow> string \<Rightarrow> string \<Rightarrow> expense" where
  "mk_expense d a dt c s p ow =
     \<lparr>description = d, amount = a, date = dt, category = c, store = s, owner = ow,
      originalAmount = None, payer = p, expense_id = []\<rparr>"

text \<open>An expense literal with a binary64 amount, for concrete inputs.\<close>

definition mk_Expense :: "string \<Rightarrow> double \<Rightarrow> string \<Rightarrow> string \<Rightarrow> string \<Rightarrow> string \<Rightarrow> string \<Rightarrow> Expense" where
  "mk_Expense d a dt c s p ow =
     \<lparr>description = d, amount = a, date = dt, category = c, store = s, owner = ow,
      originalAmount = None, payer = p, expense_id = []\<rparr>"

subsection \<open>Grouping folds\<close>

text \<open>
  The three grouping loops (item groups, per-store sums, bills) have one shape: create
  the entry of a key when it is missing, then update it. \<open>upsert\<close> is that step on a
  dictionary, \<open>upsert_obj\<close> the same step on an object, whose test also finds the
  inherited names. \<open>firsts\<close> is a list without its repetitions, in the order of first
  occurrence (the order in which such a loop stores its keys), and \<open>fold_group\<close> the
  value a key ends with: the updates of its members, in order, applied to the initial
  entry made from the first one.
\<close>

definition upsert :: "'k \<Rightarrow> 'v \<Rightarrow> ('v \<Rightarrow> 'v) \<Rightarrow> ('k \<times> 'v) list \<Rightarrow> ('k \<times> 'v) list" where
  "upsert k i f m = AList.map_entry k f (if map_of m k = None then AList.update k i m else m)"

definition upsert_obj :: "string \<Rightarrow> 'v \<Rightarrow> ('v \<Rightarrow> 'v) \<Rightarrow> (string \<times> 'v) list \<Rightarrow> (string \<times> 'v) list" where
  "upsert_obj k i f m = AList.map_entry k f (if \<not> js_truthy m k then AList.update k i m else m)"

definition firsts :: "'a list \<Rightarrow> 'a list" where
  "firsts xs = rev (remdups (rev xs))"

definition fold_group :: "('e \<Rightarrow> 'v) \<Rightarrow> ('e \<Rightarrow> 'v \<Rightarrow> 'v) \<Rightarrow> 'e list \<Rightarrow> 'v option" where
  "fold_group i f xs = (case xs of [] \<Rightarrow> None | x # ys \<Rightarrow> Some (foldl (\<lambda>v e. f e v) (f x (i x)) ys))"

subsection \<open>Replenishment\<close>

text \<open>
  The purchase dates of the group of a key, in the order of the expenses; the gaps
  between consecutive time stamps of a list; and the mean gap in days between
  consecutive purchases, the purchases sorted by date, newest first.
\<close>

definition group_dates :: "(string \<Rightarrow> string) \<Rightarrow> Expense list \<Rightarrow> string \<Rightarrow> string list" where
  "group_dates lower es k = map date (filter (\<lambda>e. normName lower e = k) es)"

definition gaps :: "int list \<Rightarrow> int list" where
  "gaps ts = map (\<lambda>(a, b). a - b) (zip ts (tl ts))"

definition mean_gap_days :: "(string \<Rightarrow> int) \<Rightarrow> string list \<Rightarrow> rat" where
  "mean_gap_days tm ds =
     (let ts = rev (sort (map tm ds))
      in (of_int (sum_list (gaps ts)) / of_nat (length (gaps ts))) / of_int day_ms)"

text \<open>The initial entry and the update of the grouping loop, and the table the loop
  builds when it meets no inherited name: \<open>plain_names\<close> says that no description of
  the list normalises to one.\<close>

definition g_init :: "Expense \<Rightarrow> item_group" where
  "g_init e = \<lparr>dates = [], category_g = category e, name_g = description e\<rparr>"

definition g_upd :: "(string \<Rightarrow> int) \<Rightarrow> Expense \<Rightarrow> item_group \<Rightarrow> item_group" where
  "g_upd tm e = (\<lambda>g. if tm (date e) > tm (hd (dates g)) then g\<lparr>name_g := description e\<rparr> else g) \<circ>
        (\<lambda>g. g\<lparr>dates := dates g @ [date e]\<rparr>)"

definition plain_names :: "(string \<Rightarrow> string) \<Rightarrow> Expense list \<Rightarrow> bool" where
  "plain_names lower es = (\<forall>e\<in>set es. normName lower e \<notin> set inherited_names)"

definition groups_of :: "(string \<Rightarrow> string) \<Rightarrow> (string \<Rightarrow> int) \<Rightarrow> Expense list \<Rightarrow> groups" where
  "groups_of lower tm es = foldl (\<lambda>m e. upsert (normName lower e) (g_init e) (g_upd tm e) m) [] es"


subsection \<open>Search\<close>


definition fsum :: "double list \<Rightarrow> double" where
  "fsum xs = foldl fadd (Fin 0) xs"






subsection \<open>Store optimizer\<close>

text \<open>
  The purchases of the item of a key; the stores of a list of purchases, in the order
  in which the planner goes through them (store names that are array indices first, in
  ascending order, then the other names in the order of first purchase); the average
  price at a store. A store is \<open>lowest\<close> when its average is a number below
  \<^verbatim>\<open>Infinity\<close> that no store undercuts; \<open>first_cheapest\<close> is the first such store (the
  empty string when there is none) and \<open>min_avg\<close> its average. \<open>planned\<close> builds a
  planned item from its group. \<open>plain_stores\<close> says that no purchase names a store by
  an inherited name.
\<close>

definition item_expenses :: "(string \<Rightarrow> string) \<Rightarrow> Expense list \<Rightarrow> string \<Rightarrow> Expense list" where
  "item_expenses lower es k = filter (\<lambda>e. normName lower e = k) es"

definition stores_of :: "Expense list \<Rightarrow> string list" where
  "stores_of xs = enum_order id (firsts (map store_key xs))"

definition avg_price :: "Expense list \<Rightarrow> string \<Rightarrow> double" where
  "avg_price xs s =
     fdiv (fsum (map amount (filter (\<lambda>e. store_key e = s) xs)))
          (Fin (of_nat (length (filter (\<lambda>e. store_key e = s) xs))))"

definition lowest :: "Expense list \<Rightarrow> string \<Rightarrow> bool" where
  "lowest xs s =
     (dlt (avg_price xs s) PosInf \<and>
      (\<forall>t\<in>set (stores_of xs). \<not> dlt (avg_price xs t) (avg_price xs s)))"

definition first_cheapest :: "Expense list \<Rightarrow> string" where
  "first_cheapest xs = (case find (lowest xs) (stores_of xs) of Some s \<Rightarrow> s | None \<Rightarrow> [])"

definition min_avg :: "Expense list \<Rightarrow> double" where
  "min_avg xs = (case find (lowest xs) (stores_of xs) of Some s \<Rightarrow> avg_price xs s | None \<Rightarrow> PosInf)"

definition planned :: "item_group \<Rightarrow> reason \<Rightarrow> double \<Rightarrow> string option \<Rightarrow> double option \<Rightarrow> plannedItem" where
  "planned g r a c s =
     \<lparr>name_p = name_g g, category_p = category_g g, reason_p = r, avgPriceHere = a,
      cheapestStore = c, savings = s, isNeeded = True\<rparr>"

definition plain_stores :: "Expense list \<Rightarrow> bool" where
  "plain_stores es = (\<forall>e\<in>set es. store_key e \<notin> set inherited_names)"


subsection \<open>Saving a bill\<close>

text \<open>A pending item literal, for concrete inputs.\<close>

definition mk_pending :: "string \<Rightarrow> double \<Rightarrow> string \<Rightarrow> string \<Rightarrow> string \<Rightarrow> string \<Rightarrow> pendingItem" where
  "mk_pending d a dt c s ow =
     \<lparr>description = d, amount = a, date = dt, category = c, store = s, owner = ow,
      originalAmount = None, tempId = []\<rparr>"


section \<open>Proofs: settlement\<close>

lemma map_of_init_gen:
  "map_of (foldl (\<lambda>d p. AList.update p z d) d ps) n = (if n \<in> set ps then Some z else map_of d n)"
  by (induction ps arbitrary: d) (auto simp: update_conv')

lemma map_of_init_data:
  "map_of (init_data ps) n = (if n \<in> set ps then Some zero_entry else None)"
  by (simp add: init_data_def map_of_init_gen)

lemma map_of_ensure:
  "map_of (ensure k d) n = (if n = k \<and> map_of d k = None then Some zero_entry else map_of d n)"
  by (simp add: ensure_def update_conv')

lemma map_of_add_paid:
  "map_of (add_paid k x d) n =
     (if n = k then map_option (\<lambda>r. r\<lparr>paid := num_add (paid r) x\<rparr>) (map_of d k) else map_of d n)"
  by (simp add: add_paid_def map_of_map_entry split: option.splits)

lemma map_of_add_consumed:
  "map_of (add_consumed k x d) n =
     (if n = k then map_option (\<lambda>r. r\<lparr>consumed := num_add (consumed r) x\<rparr>) (map_of d k) else map_of d n)"
  by (simp add: add_consumed_def map_of_map_entry split: option.splits)




































section \<open>Proofs: grouping folds\<close>

lemma firsts_snoc: "firsts (xs @ [x]) = (if x \<in> set xs then firsts xs else firsts xs @ [x])"
  by (simp add: firsts_def)

lemma set_firsts: "set (firsts xs) = set xs"
  by (simp add: firsts_def)

lemma distinct_firsts: "distinct (firsts xs)"
  by (simp add: firsts_def)

lemma keys_update: "map fst (AList.update k v m) = (if k \<in> fst ` set m then map fst m else map fst m @ [k])"
  by (induction m) (auto simp: image_iff)

lemma keys_map_entry: "map fst (AList.map_entry k f m) = map fst m"
  by (induction m) auto

lemma keys_upsert:
  "map fst (upsert k i f m) = (if k \<in> fst ` set m then map fst m else map fst m @ [k])"
  by (auto simp: upsert_def keys_map_entry keys_update map_of_eq_None_iff)

lemma map_of_upsert:
  "map_of (upsert k i f m) k' =
     (if k' = k then Some (f (case map_of m k of None \<Rightarrow> i | Some v \<Rightarrow> v)) else map_of m k')"
  by (auto simp: upsert_def map_of_map_entry update_conv' split: option.splits)

lemma keys_fold_upsert:
  "map fst (foldl (\<lambda>m e. upsert (key e) (i e) (f e) m) [] es) = firsts (map key es)"
proof (induction es rule: rev_induct)
  case Nil
  then show ?case by (simp add: firsts_def)
next
  case (snoc e es)
  have "fst ` set (foldl (\<lambda>m e. upsert (key e) (i e) (f e) m) [] es) = set (map key es)"
    using snoc set_firsts[of "map key es"] by (metis set_map)
  then show ?case using snoc by (simp add: keys_upsert firsts_snoc)
qed

lemma fold_group_snoc:
  "fold_group i f (xs @ [x]) = Some (f x (case fold_group i f xs of None \<Rightarrow> i x | Some v \<Rightarrow> v))"
  by (cases xs) (simp_all add: fold_group_def)

lemma map_of_fold_upsert:
  "map_of (foldl (\<lambda>m e. upsert (key e) (i e) (f e) m) [] es) k
     = fold_group i f (filter (\<lambda>e. key e = k) es)"
proof (induction es rule: rev_induct)
  case Nil
  then show ?case by (simp add: fold_group_def)
next
  case (snoc e es)
  show ?case
  proof (cases "key e = k")
    case True
    then show ?thesis using snoc
      by (simp add: map_of_upsert fold_group_snoc)
  next
    case False
    then show ?thesis using snoc by (simp add: map_of_upsert)
  qed
qed

lemma distinct_fold_upsert:
  "distinct (map fst (foldl (\<lambda>m e. upsert (key e) (i e) (f e) m) [] es))"
  by (simp add: keys_fold_upsert distinct_firsts)

lemma alist_by_keys:
  assumes "distinct (map fst m)"
  shows "m = map (\<lambda>k. (k, the (map_of m k))) (map fst m)"
proof -
  have "map (\<lambda>p. (fst p, the (map_of m (fst p)))) m = m"
  proof (rule map_idI)
    fix p assume "p \<in> set m"
    then have "(fst p, snd p) \<in> set m" by simp
    then have "map_of m (fst p) = Some (snd p)"
      using assms by (rule map_of_is_SomeI[rotated])
    then show "(fst p, the (map_of m (fst p))) = p" by simp
  qed
  then show ?thesis by (simp add: o_def)
qed

lemma fold_upsert_entries:
  "foldl (\<lambda>m e. upsert (key e) (i e) (f e) m) [] es
     = map (\<lambda>k. (k, the (fold_group i f (filter (\<lambda>e. key e = k) es)))) (firsts (map key es))"
  using alist_by_keys[OF distinct_fold_upsert, of key i f es]
  by (simp add: keys_fold_upsert map_of_fold_upsert)

subsection \<open>Object tables\<close>

lemma truthy_plain: "k \<notin> set inherited_names \<Longrightarrow> js_truthy m k = (map_of m k \<noteq> None)"
  by (simp add: js_truthy_def)

lemma map_entry_absent: "map_of m k = None \<Longrightarrow> AList.map_entry k f m = m"
  by (induction m) (auto split: if_splits)

lemma upsert_obj_plain: "k \<notin> set inherited_names \<Longrightarrow> upsert_obj k i f m = upsert k i f m"
  by (simp add: upsert_obj_def upsert_def truthy_plain)

lemma upsert_obj_inherited:
  "k \<in> set inherited_names \<Longrightarrow> map_of m k = None \<Longrightarrow> upsert_obj k i f m = m"
  by (simp add: upsert_obj_def js_truthy_def map_entry_absent)

lemma fold_upsert_obj:
  "foldl (\<lambda>m e. upsert_obj (key e) (i e) (f e) m) [] es
     = foldl (\<lambda>m e. upsert (key e) (i e) (f e) m) []
         (filter (\<lambda>e. key e \<notin> set inherited_names) es)"
proof (induction es rule: rev_induct)
  case Nil
  then show ?case by simp
next
  case (snoc e es)
  let ?m = "foldl (\<lambda>m e. upsert (key e) (i e) (f e) m) []
              (filter (\<lambda>e. key e \<notin> set inherited_names) es)"
  show ?case
  proof (cases "key e \<in> set inherited_names")
    case True
    have "key e \<notin> set (map fst ?m)"
      using True by (simp only: keys_fold_upsert set_firsts) auto
    then have "map_of ?m (key e) = None"
      by (simp add: map_of_eq_None_iff)
    then show ?thesis using True snoc by (simp add: upsert_obj_inherited)
  next
    case False
    then show ?thesis using snoc by (simp add: upsert_obj_plain)
  qed
qed

lemma fold_err_snoc:
  "fold_err f s (xs @ [x]) = (case fold_err f s xs of Inl err \<Rightarrow> Inl err | Inr s' \<Rightarrow> f s' x)"
  by (induction xs arbitrary: s) (auto split: sum.splits)

lemma set_enum_order: "set (enum_order key xs) = set xs"
  by (auto simp: enum_order_def)

lemma mset_enum_order: "mset (enum_order key xs) = mset xs"
  by (simp add: enum_order_def)

lemma distinct_enum_order: "distinct (map f (enum_order key xs)) = distinct (map f xs)"
proof -
  have "mset (map f (enum_order key xs)) = mset (map f xs)"
    by (simp add: mset_enum_order)
  then show ?thesis by (metis distinct_count_atmost_1 set_mset_mset)
qed

lemma sort_key_map: "sort_key f (map h xs) = map h (sort_key (\<lambda>x. f (h x)) xs)"
proof -
  have ins: "insort_key f (h x) (map h ys) = map h (insort_key (\<lambda>x. f (h x)) x ys)" for x ys
    by (induction ys) auto
  show ?thesis by (induction xs) (simp_all add: ins)
qed

lemma enum_order_map: "enum_order key (map h xs) = map h (enum_order (\<lambda>x. key (h x)) xs)"
  by (simp add: enum_order_def filter_map sort_key_map o_def)

lemma own_entries_map:
  "own_entries (map (\<lambda>k. (k, v k)) ks) = map (\<lambda>k. (k, v k)) (enum_order id ks)"
  unfolding own_entries_def by (simp add: enum_order_map o_def id_def)

lemma set_own_entries: "set (own_entries m) = set m"
  by (simp add: own_entries_def set_enum_order)

lemma distinct_own_entries: "distinct (map fst (own_entries m)) = distinct (map fst m)"
  by (simp add: own_entries_def distinct_enum_order)

section \<open>Proofs: replenishment predictor\<close>

lemma map_entry_comp: "AList.map_entry k g (AList.map_entry k f m) = AList.map_entry k (g \<circ> f) m"
  by (induction m) auto

lemma group_step_plain:
  assumes "normName lower e \<notin> set inherited_names"
  shows "group_step lower tm m e = Inr (upsert (normName lower e) (g_init e) (g_upd tm e) m)"
proof (cases "map_of m (normName lower e)")
  case None
  then show ?thesis
    unfolding group_step_def Let_def truthy_plain[OF assms]
    by (simp add: upsert_def g_init_def g_upd_def map_entry_comp update_conv')
next
  case (Some v)
  then show ?thesis
    unfolding group_step_def Let_def truthy_plain[OF assms]
    by (simp add: upsert_def g_init_def g_upd_def map_entry_comp)
qed

lemma group_step_inherited:
  assumes "normName lower e \<in> set inherited_names" and "map_of m (normName lower e) = None"
  shows "group_step lower tm m e = Inl TypeError"
  using assms by (simp add: group_step_def Let_def js_truthy_def)

lemma group_keys: "map fst (groups_of lower tm es) = firsts (map (normName lower) es)"
  by (simp add: groups_of_def keys_fold_upsert)

lemma groups_of_snoc:
  "groups_of lower tm (es @ [e]) = upsert (normName lower e) (g_init e) (g_upd tm e) (groups_of lower tm es)"
  by (simp add: groups_of_def)

lemma plain_names_snoc:
  "plain_names lower (es @ [e]) = (plain_names lower es \<and> normName lower e \<notin> set inherited_names)"
  by (auto simp: plain_names_def)

lemma group_items_result:
  "group_items lower tm es =
     (if plain_names lower es then Inr (groups_of lower tm es) else Inl TypeError)"
proof (induction es rule: rev_induct)
  case Nil
  then show ?case by (simp add: group_items_def groups_of_def plain_names_def)
next
  case (snoc e es)
  have step: "group_items lower tm (es @ [e])
      = (case group_items lower tm es of Inl err \<Rightarrow> Inl err | Inr m \<Rightarrow> group_step lower tm m e)"
    by (simp add: group_items_def fold_err_snoc)
  show ?case
  proof (cases "plain_names lower es")
    case False
    then show ?thesis using snoc step by (simp add: plain_names_snoc)
  next
    case True
    then have gi: "group_items lower tm es = Inr (groups_of lower tm es)" using snoc by simp
    show ?thesis
    proof (cases "normName lower e \<in> set inherited_names")
      case False
      then show ?thesis
        using True step gi by (simp add: plain_names_snoc group_step_plain groups_of_snoc)
    next
      case inh: True
      have "normName lower e \<notin> normName lower ` set es"
        using True inh by (auto simp: plain_names_def)
      then have "normName lower e \<notin> set (map fst (groups_of lower tm es))"
        by (simp only: group_keys set_firsts) simp
      then have "map_of (groups_of lower tm es) (normName lower e) = None"
        by (simp add: map_of_eq_None_iff)
      then show ?thesis
        using inh step gi by (simp add: plain_names_snoc group_step_inherited)
    qed
  qed
qed

lemma group_items_Inr:
  "group_items lower tm es = Inr gs \<longleftrightarrow> plain_names lower es \<and> gs = groups_of lower tm es"
  by (auto simp: group_items_result)

lemma g_fold_dates:
  "dates (foldl (\<lambda>v e. g_upd tm e v) g ys) = dates g @ map date ys \<and>
   category_g (foldl (\<lambda>v e. g_upd tm e v) g ys) = category_g g"
  by (induction ys arbitrary: g) (auto simp: g_upd_def)

lemma group_member:
  assumes "(k, g) \<in> set (groups_of lower tm es)"
  shows "dates g = group_dates lower es k \<and> dates g \<noteq> [] \<and>
         (\<exists>e\<in>set es. normName lower e = k \<and> category_g g = category e)"
proof -
  have d: "distinct (map fst (groups_of lower tm es))"
    by (simp add: group_keys distinct_firsts)
  have "k \<in> fst ` set (groups_of lower tm es)" using assms by force
  then have "k \<in> set (map (normName lower) es)"
    using group_keys[of lower tm es] set_firsts[of "map (normName lower) es"] by (metis set_map)
  then have "filter (\<lambda>e. normName lower e = k) es \<noteq> []"
    by (auto simp: filter_empty_conv)
  then obtain x ys where xs: "filter (\<lambda>e. normName lower e = k) es = x # ys"
    by (cases "filter (\<lambda>e. normName lower e = k) es") auto
  then have "x \<in> set (filter (\<lambda>e. normName lower e = k) es)" by simp
  then have x: "x \<in> set es" "normName lower x = k" by auto
  have "map_of (groups_of lower tm es) k = Some g"
    using d assms by simp
  then have "g = foldl (\<lambda>v e. g_upd tm e v) (g_upd tm x (g_init x)) ys"
    by (simp add: groups_of_def map_of_fold_upsert xs fold_group_def)
  then have "dates g = dates (g_upd tm x (g_init x)) @ map date ys"
        and "category_g g = category_g (g_upd tm x (g_init x))"
    using g_fold_dates by simp_all
  then have "dates g = map date (x # ys)" "category_g g = category x"
    by (simp_all add: g_upd_def g_init_def)
  then show ?thesis using x xs by (auto simp: group_dates_def)
qed

lemma hd_sortDates:
  assumes "ds \<noteq> []"
  shows "tm (hd (sortDates tm ds)) = Max (tm ` set ds)"
proof -
  let ?ys = "sortDates tm ds"
  have "length ?ys = length ds" by (simp add: sortDates_def)
  then have ne: "?ys \<noteq> []" using assms by auto
  have s: "sorted (map (\<lambda>d. - tm d) ?ys)" by (simp add: sortDates_def)
  have st: "set ?ys = set ds" by (simp add: sortDates_def)
  obtain y ys where ys: "?ys = y # ys" using ne by (cases ?ys) auto
  have "\<forall>d\<in>set ds. tm d \<le> tm y"
    using s st unfolding ys by auto
  moreover have "y \<in> set ds" using st ys by auto
  ultimately have "Max (tm ` set ds) = tm y"
    by (intro Max_eqI) auto
  then show ?thesis by (simp add: ys)
qed

lemma totalDays_gaps: "totalDays tm xs = sum_list (gaps (map tm xs))"
  by (induction tm xs rule: totalDays.induct) (simp_all add: gaps_def)

lemma length_gaps: "length (gaps ts) = length ts - 1"
  by (simp add: gaps_def)

lemma sorted_uminus: "sorted (map uminus (xs :: int list)) = sorted (rev xs)"
  by (simp add: sorted_wrt_map sorted_wrt_rev)

lemma map_tm_sortDates: "map tm (sortDates tm ds) = rev (sort (map tm ds))"
proof -
  let ?ys = "sortDates tm ds"
  have "sorted (map (\<lambda>d. - tm d) ?ys)" by (simp add: sortDates_def)
  then have "sorted (map uminus (map tm ?ys))" by (simp add: o_def)
  then have s: "sorted (rev (map tm ?ys))" by (simp only: sorted_uminus)
  have "mset (rev (map tm ?ys)) = mset (map tm ds)"
    by (simp add: sortDates_def)
  then have "sort (map tm ds) = rev (map tm ?ys)"
    using s by (rule properties_for_sort)
  then show ?thesis by simp
qed

lemma length_sortDates: "length (sortDates tm ds) = length ds"
  by (simp add: sortDates_def)

lemma avgCycle_spec:
  "avgCycle_of tm (sortDates tm ds) =
     (if 2 \<le> length ds then Some (js_round (mean_gap_days tm ds)) else None)"
  by (simp add: avgCycle_of_def mean_gap_days_def Let_def totalDays_gaps map_tm_sortDates length_gaps
        length_sortDates)

lemma shelf_table_nonzero: "map_of SHELF_LIFE_DAYS c = Some n \<Longrightarrow> n \<noteq> 0"
proof -
  assume "map_of SHELF_LIFE_DAYS c = Some n"
  then have "(c, n) \<in> set SHELF_LIFE_DAYS" by (rule map_of_SomeD)
  then have "n \<in> snd ` set SHELF_LIFE_DAYS" by force
  then show "n \<noteq> 0" by (auto simp: SHELF_LIFE_DAYS_def)
qed

lemma shelfLife_spec:
  "shelfLife_of c = (case map_of SHELF_LIFE_DAYS c of Some n \<Rightarrow> n | None \<Rightarrow> 14)"
  using shelf_table_nonzero[of c] by (auto simp: shelfLife_of_def split: option.splits)

lemma itemStats_result:
  "itemStats lower tm now es =
     (if plain_names lower es
      then Inr (sort_key (\<lambda>i. - score (status_s i))
                  (map (\<lambda>(k, item). item_stat tm now item) (own_entries (groups_of lower tm es))))
      else Inl TypeError)"
  by (simp add: itemStats_def group_items_result)

lemma item_stat_spec:
  assumes "dates g \<noteq> []"
  shows "daysSinceLastPurchase (item_stat tm now g)
           = \<lfloor>(of_int (now - Max (tm ` set (dates g))) :: rat) / of_int day_ms\<rfloor>"
    and "avgCycle (item_stat tm now g)
           = (if 2 \<le> length (dates g) then Some (js_round (mean_gap_days tm (dates g))) else None)"
    and "genericShelfLife (item_stat tm now g)
           = (case map_of SHELF_LIFE_DAYS (category_g g) of Some n \<Rightarrow> n | None \<Rightarrow> 14)"
    and "status_s (item_stat tm now g) =
           (case avgCycle (item_stat tm now g) of
              Some c \<Rightarrow>
                if daysSinceLastPurchase (item_stat tm now g) \<ge> c then StockUp
                else if (of_int (daysSinceLastPurchase (item_stat tm now g)) :: rat) \<ge> (8 / 10) * of_int c
                then RunningLow else Good
            | None \<Rightarrow>
                if daysSinceLastPurchase (item_stat tm now g) \<ge> genericShelfLife (item_stat tm now g)
                then StockUp
                else if (of_int (daysSinceLastPurchase (item_stat tm now g)) :: rat)
                          \<ge> (9 / 10) * of_int (genericShelfLife (item_stat tm now g))
                then RunningLow else Good)"
    and "name_s (item_stat tm now g) = name_g g"
    and "category_s (item_stat tm now g) = category_g g"
proof -
  show "daysSinceLastPurchase (item_stat tm now g)
           = \<lfloor>(of_int (now - Max (tm ` set (dates g))) :: rat) / of_int day_ms\<rfloor>"
    using hd_sortDates[OF assms, of tm] by (simp add: item_stat_def Let_def daysSince_of_def)
  show "avgCycle (item_stat tm now g)
           = (if 2 \<le> length (dates g) then Some (js_round (mean_gap_days tm (dates g))) else None)"
    by (simp only: item_stat_def Let_def itemStat.simps avgCycle_spec)
  show "genericShelfLife (item_stat tm now g)
           = (case map_of SHELF_LIFE_DAYS (category_g g) of Some n \<Rightarrow> n | None \<Rightarrow> 14)"
    by (simp only: item_stat_def Let_def itemStat.simps shelfLife_spec)
  show "status_s (item_stat tm now g) =
           (case avgCycle (item_stat tm now g) of
              Some c \<Rightarrow>
                if daysSinceLastPurchase (item_stat tm now g) \<ge> c then StockUp
                else if (of_int (daysSinceLastPurchase (item_stat tm now g)) :: rat) \<ge> (8 / 10) * of_int c
                then RunningLow else Good
            | None \<Rightarrow>
                if daysSinceLastPurchase (item_stat tm now g) \<ge> genericShelfLife (item_stat tm now g)
                then StockUp
                else if (of_int (daysSinceLastPurchase (item_stat tm now g)) :: rat)
                          \<ge> (9 / 10) * of_int (genericShelfLife (item_stat tm now g))
                then RunningLow else Good)"
    by (simp add: item_stat_def Let_def status_of_def mult.commute split: option.splits)
  show "name_s (item_stat tm now g) = name_g g" "category_s (item_stat tm now g) = category_g g"
    by (simp_all add: item_stat_def Let_def)
qed

text \<open>
  What the predictor computes when no description normalises to an inherited name:
  the groups are those of the trimmed, lower-cased descriptions, each once, holding the
  dates of exactly the expenses of their key, and the statistics are those the
  specification gives, by the thresholds 1 and 0.8 of the average cycle, or 1 and 0.9
  of the generic shelf life.
\<close>

lemma predictor_plain:
  assumes "plain_names lower es"
  shows "\<exists>gs sts. group_items lower tm es = Inr gs \<and> itemStats lower tm now es = Inr sts \<and>
           fst ` set gs = normName lower ` set es \<and> distinct (map fst gs) \<and>
           set sts = (\<lambda>(k, g). item_stat tm now g) ` set gs \<and> length sts = length gs \<and>
           (\<forall>(k, g)\<in>set gs.
              dates g = group_dates lower es k \<and> dates g \<noteq> [] \<and>
              (\<exists>e\<in>set es. normName lower e = k \<and> category_g g = category e) \<and>
              daysSinceLastPurchase (item_stat tm now g)
                = \<lfloor>(of_int (now - Max (tm ` set (dates g))) :: rat) / of_int day_ms\<rfloor> \<and>
              avgCycle (item_stat tm now g)
                = (if 2 \<le> length (dates g) then Some (js_round (mean_gap_days tm (dates g))) else None) \<and>
              genericShelfLife (item_stat tm now g)
                = (case map_of SHELF_LIFE_DAYS (category_g g) of Some n \<Rightarrow> n | None \<Rightarrow> 14) \<and>
              status_s (item_stat tm now g) =
                (case avgCycle (item_stat tm now g) of
                   Some c \<Rightarrow>
                     if daysSinceLastPurchase (item_stat tm now g) \<ge> c then StockUp
                     else if (of_int (daysSinceLastPurchase (item_stat tm now g)) :: rat) \<ge> (8 / 10) * of_int c
                     then RunningLow else Good
                 | None \<Rightarrow>
                     if daysSinceLastPurchase (item_stat tm now g) \<ge> genericShelfLife (item_stat tm now g)
                     then StockUp
                     else if (of_int (daysSinceLastPurchase (item_stat tm now g)) :: rat)
                               \<ge> (9 / 10) * of_int (genericShelfLife (item_stat tm now g))
                     then RunningLow else Good))"
proof -
  let ?gs = "groups_of lower tm es"
  let ?sts = "sort_key (\<lambda>i. - score (status_s i))
                  (map (\<lambda>(k, item). item_stat tm now item) (own_entries ?gs))"
  have gi: "group_items lower tm es = Inr ?gs" using assms by (simp add: group_items_result)
  have st: "itemStats lower tm now es = Inr ?sts" using assms by (simp add: itemStats_result)
  have keys: "fst ` set ?gs = normName lower ` set es"
    using group_keys[of lower tm es] set_firsts[of "map (normName lower) es"] by (metis set_map)
  have dist: "distinct (map fst ?gs)"
    by (simp add: group_keys distinct_firsts)
  have sset: "set ?sts = (\<lambda>(k, g). item_stat tm now g) ` set ?gs"
    by (simp add: set_own_entries)
  have len: "length ?sts = length ?gs"
    using mset_enum_order[of fst ?gs] by (simp add: own_entries_def) (metis size_mset)
  have each: "\<forall>(k, g)\<in>set ?gs.
              dates g = group_dates lower es k \<and> dates g \<noteq> [] \<and>
              (\<exists>e\<in>set es. normName lower e = k \<and> category_g g = category e) \<and>
              daysSinceLastPurchase (item_stat tm now g)
                = \<lfloor>(of_int (now - Max (tm ` set (dates g))) :: rat) / of_int day_ms\<rfloor> \<and>
              avgCycle (item_stat tm now g)
                = (if 2 \<le> length (dates g) then Some (js_round (mean_gap_days tm (dates g))) else None) \<and>
              genericShelfLife (item_stat tm now g)
                = (case map_of SHELF_LIFE_DAYS (category_g g) of Some n \<Rightarrow> n | None \<Rightarrow> 14) \<and>
              status_s (item_stat tm now g) =
                (case avgCycle (item_stat tm now g) of
                   Some c \<Rightarrow>
                     if daysSinceLastPurchase (item_stat tm now g) \<ge> c then StockUp
                     else if (of_int (daysSinceLastPurchase (item_stat tm now g)) :: rat) \<ge> (8 / 10) * of_int c
                     then RunningLow else Good
                 | None \<Rightarrow>
                     if daysSinceLastPurchase (item_stat tm now g) \<ge> genericShelfLife (item_stat tm now g)
                     then StockUp
                     else if (of_int (daysSinceLastPurchase (item_stat tm now g)) :: rat)
                               \<ge> (9 / 10) * of_int (genericShelfLife (item_stat tm now g))
                     then RunningLow else Good)"
  proof (intro ballI, simp only: split_paired_all prod.case, intro conjI)
    fix k g assume m: "(k, g) \<in> set ?gs"
    note gm = group_member[OF m]
    from gm have ne: "dates g \<noteq> []" by blast
    show "dates g = group_dates lower es k" using gm by blast
    show "dates g \<noteq> []" by (rule ne)
    show "\<exists>e\<in>set es. normName lower e = k \<and> category_g g = category e" using gm by blast
    show "daysSinceLastPurchase (item_stat tm now g)
                = \<lfloor>(of_int (now - Max (tm ` set (dates g))) :: rat) / of_int day_ms\<rfloor>"
      by (rule item_stat_spec(1)[OF ne])
    show "avgCycle (item_stat tm now g)
                = (if 2 \<le> length (dates g) then Some (js_round (mean_gap_days tm (dates g))) else None)"
      by (rule item_stat_spec(2)[OF ne])
    show "genericShelfLife (item_stat tm now g)
                = (case map_of SHELF_LIFE_DAYS (category_g g) of Some n \<Rightarrow> n | None \<Rightarrow> 14)"
      by (rule item_stat_spec(3)[OF ne])
    show "status_s (item_stat tm now g) =
                (case avgCycle (item_stat tm now g) of
                   Some c \<Rightarrow>
                     if daysSinceLastPurchase (item_stat tm now g) \<ge> c then StockUp
                     else if (of_int (daysSinceLastPurchase (item_stat tm now g)) :: rat) \<ge> (8 / 10) * of_int c
                     then RunningLow else Good
                 | None \<Rightarrow>
                     if daysSinceLastPurchase (item_stat tm now g) \<ge> genericShelfLife (item_stat tm now g)
                     then StockUp
                     else if (of_int (daysSinceLastPurchase (item_stat tm now g)) :: rat)
                               \<ge> (9 / 10) * of_int (genericShelfLife (item_stat tm now g))
                     then RunningLow else Good)"
      by (rule item_stat_spec(4)[OF ne])
  qed
  show ?thesis using gi st keys dist sset len each by blast
qed

text \<open>A description that normalises to an inherited name stops the predictor and the
  planner.\<close>

lemma predictor_throws:
  assumes "\<not> plain_names lower es"
  shows "itemStats lower tm now es = Inl TypeError"
    and "shoppingList lower tm now es = Inl TypeError"
    and "S \<noteq> [] \<Longrightarrow> plan lower tm now es S = Inl TypeError"
  using assms by (simp_all add: itemStats_result shoppingList_def plan_def group_items_result)


section \<open>Proofs: evaluation on concrete inputs\<close>

lemma isoTime_defs:
  "isoTime s =
     86400000 * days_from_civil (digits (take 4 s)) (digits (take 2 (drop 5 s)))
                                (digits (take 2 (drop 8 s)))"
  "digits s = foldl (\<lambda>a c. 10 * a + digitVal c) 0 s"
  "digitVal c = int (of_char c) - 48"
  "days_from_civil y m d =
     (let y' = (if m \<le> 2 then y - 1 else y);
          era = y' div 400;
          yoe = y' - era * 400;
          mp = (m + 9) mod 12;
          doy = (153 * mp + 2) div 5 + d - 1;
          doe = yoe * 365 + yoe div 4 - yoe div 100 + doy
      in era * 146097 + doe - 719468)"
  by (simp_all add: isoTime_def digits_def digitVal_def days_from_civil_def)

lemma isoTime_2024_01_01: "isoTime ''2024-01-01'' = 1704067200000" by (simp add: isoTime_defs)

lemma isoTime_2024_01_02: "isoTime ''2024-01-02'' = 1704153600000" by (simp add: isoTime_defs)

lemma isoTime_2024_01_05: "isoTime ''2024-01-05'' = 1704412800000" by (simp add: isoTime_defs)

lemma isoTime_2024_01_10: "isoTime ''2024-01-10'' = 1704844800000" by (simp add: isoTime_defs)

lemma isoTime_2024_01_11: "isoTime ''2024-01-11'' = 1704931200000" by (simp add: isoTime_defs)

lemma isoTime_2024_01_19: "isoTime ''2024-01-19'' = 1705622400000" by (simp add: isoTime_defs)

lemma isoTime_2024_01_20: "isoTime ''2024-01-20'' = 1705708800000" by (simp add: isoTime_defs)

lemma isoTime_2024_03_01: "isoTime ''2024-03-01'' = 1709251200000" by (simp add: isoTime_defs)

lemma norm_runs:
  "lowerASCII (trim ''Milk'') = ''milk''"
  "lowerASCII (trim ''milk'') = ''milk''"
  "lowerASCII (trim ''MILK'') = ''milk''"
  "lowerASCII (trim ''constructor'') = ''constructor''"
  "lowerASCII (trim ''Constructor '') = ''constructor''"
  by code_simp+

lemma normName_runs:
  "normName lowerASCII (mk_Expense ''Milk'' a d c s p ow) = ''milk''"
  "normName lowerASCII (mk_Expense ''milk'' a d c s p ow) = ''milk''"
  "normName lowerASCII (mk_Expense ''MILK'' a d c s p ow) = ''milk''"
  "normName lowerASCII (mk_Expense ''constructor'' a d c s p ow) = ''constructor''"
  "normName lowerASCII (mk_Expense ''Constructor '' a d c s p ow) = ''constructor''"
  by (simp_all add: normName_def mk_Expense_def norm_runs)

lemma inherited_runs:
  "''constructor'' \<in> set inherited_names"
  "''milk'' \<notin> set inherited_names"
  "''A'' \<notin> set inherited_names"
  "''B'' \<notin> set inherited_names"
  "''1'' \<notin> set inherited_names"
  "''2'' \<notin> set inherited_names"
  by (simp_all add: inherited_names_def)

lemma index_runs:
  "is_array_index ''milk'' = False"
  "is_array_index ''A'' = False"
  "is_array_index ''B'' = False"
  "is_array_index ''1'' = True"
  "is_array_index ''2'' = True"
  "digits ''1'' = 1"
  "digits ''2'' = 2"
  by code_simp+

lemma own_entries_one: "own_entries [(k, v)] = [(k, v)]"
  by (simp add: own_entries_def enum_order_def)

lemma plain_milk:
  "plain_names lowerASCII [mk_Expense ''Milk'' a d c s p ow, mk_Expense ''Milk'' a' d' c' s' p' ow']"
  "plain_names lowerASCII [mk_Expense ''milk'' a d c s p ow, mk_Expense ''Milk'' a' d' c' s' p' ow',
      mk_Expense ''MILK'' a'' d'' c'' s'' p'' ow'']"
  "plain_names lowerASCII [mk_Expense ''Milk'' a d c s p ow]"
  by (simp_all add: plain_names_def normName_runs inherited_runs)

lemma mk_Expense_fields:
  "description (mk_Expense d a dt c s p ow) = d"
  "amount (mk_Expense d a dt c s p ow) = a"
  "date (mk_Expense d a dt c s p ow) = dt"
  "category (mk_Expense d a dt c s p ow) = c"
  "store (mk_Expense d a dt c s p ow) = s"
  by (simp_all add: mk_Expense_def)

lemma groups_of_runs:
  "groups_of lowerASCII isoTime
     [mk_Expense ''Milk'' a ''2024-01-01'' c s p ow, mk_Expense ''Milk'' a' ''2024-01-11'' c' s' p' ow']
   = [(''milk'', \<lparr>dates = [''2024-01-01'', ''2024-01-11''], category_g = c, name_g = ''Milk''\<rparr>)]"
  "groups_of lowerASCII isoTime
     [mk_Expense ''milk'' a ''2024-01-01'' c s p ow, mk_Expense ''Milk'' a' ''2024-01-10'' c' s' p' ow',
      mk_Expense ''MILK'' a'' ''2024-01-05'' c'' s'' p'' ow'']
   = [(''milk'', \<lparr>dates = [''2024-01-01'', ''2024-01-10'', ''2024-01-05''], category_g = c,
        name_g = ''MILK''\<rparr>)]"
  "groups_of lowerASCII isoTime
     [mk_Expense ''Milk'' a ''2024-01-01'' c s p ow, mk_Expense ''Milk'' a' ''2024-01-02'' c' s' p' ow']
   = [(''milk'', \<lparr>dates = [''2024-01-01'', ''2024-01-02''], category_g = c, name_g = ''Milk''\<rparr>)]"
  "groups_of lowerASCII isoTime [mk_Expense ''Milk'' a ''2024-01-01'' c s p ow]
   = [(''milk'', \<lparr>dates = [''2024-01-01''], category_g = c, name_g = ''Milk''\<rparr>)]"
  by (simp_all add: groups_of_def upsert_def g_init_def g_upd_def normName_runs mk_Expense_fields
        isoTime_2024_01_01 isoTime_2024_01_02 isoTime_2024_01_05 isoTime_2024_01_10 isoTime_2024_01_11)

lemma floor_days: "\<lfloor>(of_int a :: rat) / of_int day_ms\<rfloor> = a div 86400000"
  unfolding day_ms_def by (simp only: floor_divide_of_int_eq) simp

lemma js_round_div:
  assumes "b > 0"
  shows "js_round (of_int a / of_int b) = (2 * a + b) div (2 * b)"
proof -
  have "(of_int a / of_int b + 1 / 2 :: rat) = of_int (2 * a + b) / of_int (2 * b)"
    using assms by (simp add: field_simps)
  then show ?thesis unfolding js_round_def by (simp only: floor_divide_of_int_eq)
qed

lemma daysSince_of_div:
  "daysSince_of tm now sortedDates = (now - tm (hd sortedDates)) div 86400000"
  unfolding daysSince_of_def by (rule floor_days)

lemma avgCycle_of_div:
  "avgCycle_of tm sortedDates =
     (if length sortedDates \<ge> 2
      then Some ((2 * totalDays tm sortedDates + int (length sortedDates - 1) * 86400000)
                 div (2 * (int (length sortedDates - 1) * 86400000)))
      else None)"
proof (cases "length sortedDates \<ge> 2")
  case True
  then have pos: "int (length sortedDates - 1) * 86400000 > 0" by simp
  have "(of_int (totalDays tm sortedDates) / of_nat (length sortedDates - 1)) / (of_int day_ms :: rat)
        = of_int (totalDays tm sortedDates) / of_int (int (length sortedDates - 1) * 86400000)"
    by (simp add: day_ms_def)
  then have "js_round ((of_int (totalDays tm sortedDates) / of_nat (length sortedDates - 1)) / of_int day_ms)
       = (2 * totalDays tm sortedDates + int (length sortedDates - 1) * 86400000)
                 div (2 * (int (length sortedDates - 1) * 86400000))"
    using js_round_div[OF pos, of "totalDays tm sortedDates"] by (simp only:)
  then show ?thesis using True unfolding avgCycle_of_def by (simp only: if_True)
next
  case False
  then show ?thesis by (simp add: avgCycle_of_def)
qed

lemma sortDates_run: "sortDates isoTime [''2024-01-01'', ''2024-01-11''] = [''2024-01-11'', ''2024-01-01'']"
  by (simp add: sortDates_def isoTime_2024_01_01 isoTime_2024_01_11)

lemma daysSince_run_19: "daysSince_of isoTime (isoTime ''2024-01-19'') [''2024-01-11'', ''2024-01-01''] = 8"
  by (simp add: daysSince_of_div isoTime_2024_01_11 isoTime_2024_01_19)

lemma daysSince_run_20: "daysSince_of isoTime (isoTime ''2024-01-20'') [''2024-01-11'', ''2024-01-01''] = 9"
  by (simp add: daysSince_of_div isoTime_2024_01_11 isoTime_2024_01_20)

lemma avgCycle_run: "avgCycle_of isoTime [''2024-01-11'', ''2024-01-01''] = Some 10"
  by (simp add: avgCycle_of_div isoTime_2024_01_01 isoTime_2024_01_11)

lemma shelfLife_dairy: "shelfLife_of ''Dairy & Eggs'' = 14"
  by (simp add: shelfLife_of_def SHELF_LIFE_DAYS_def)

lemma status_runs:
  "status_of 8 (Some 10) 14 = RunningLow" "isNeeded_of 8 (Some 10) 14 = False"
  "status_of 9 (Some 10) 14 = RunningLow"
  by (simp_all add: status_of_def isNeeded_of_def)

lemma item_stat_run_19: "item_stat isoTime (isoTime ''2024-01-19'') \<lparr>dates = [''2024-01-01'', ''2024-01-11''],
       category_g = ''Dairy & Eggs'', name_g = ''Milk''\<rparr> =
    \<lparr>name_s = ''Milk'', category_s = ''Dairy & Eggs'', lastPurchased = 1704931200000,
     daysSinceLastPurchase = 8, avgCycle = Some 10, purchaseCount = 2, genericShelfLife = 14,
     status_s = RunningLow\<rparr>"
  by (simp add: item_stat_def sortDates_run daysSince_run_19 avgCycle_run shelfLife_dairy status_runs isoTime_2024_01_11 Let_def)

lemma item_stat_run_20: "item_stat isoTime (isoTime ''2024-01-20'') \<lparr>dates = [''2024-01-01'', ''2024-01-11''],
       category_g = ''Dairy & Eggs'', name_g = ''Milk''\<rparr> =
    \<lparr>name_s = ''Milk'', category_s = ''Dairy & Eggs'', lastPurchased = 1704931200000,
     daysSinceLastPurchase = 9, avgCycle = Some 10, purchaseCount = 2, genericShelfLife = 14,
     status_s = RunningLow\<rparr>"
  by (simp add: item_stat_def sortDates_run daysSince_run_20 avgCycle_run shelfLife_dairy status_runs isoTime_2024_01_11 Let_def)

lemma shoppingList_run: "shoppingList lowerASCII isoTime (isoTime ''2024-01-19'')
   [mk_Expense ''Milk'' (Fin 1) ''2024-01-01'' ''Dairy & Eggs'' ''X'' ''Me'' ''Me'',
    mk_Expense ''Milk'' (Fin 1) ''2024-01-11'' ''Dairy & Eggs'' ''X'' ''Me'' ''Me'']
   = Inr [\<lparr>name_s = ''Milk'', category_s = ''Dairy & Eggs'', lastPurchased = 1704931200000,
     daysSinceLastPurchase = 8, avgCycle = Some 10, purchaseCount = 2, genericShelfLife = 14,
     status_s = RunningLow\<rparr>]"
  by (simp add: shoppingList_def itemStats_result plain_milk groups_of_runs own_entries_one item_stat_run_19)

lemma neededItems_run_19: "neededItems isoTime (isoTime ''2024-01-19'') [(''milk'', \<lparr>dates = [''2024-01-01'', ''2024-01-11''],
       category_g = ''Dairy & Eggs'', name_g = ''Milk''\<rparr>)] = []"
  by (simp add: neededItems_def own_entries_one group_needed_def sortDates_run daysSince_run_19 avgCycle_run shelfLife_dairy status_runs Let_def)

lemma group_items_run_two: "group_items lowerASCII isoTime
   [mk_Expense ''Milk'' (Fin 1) ''2024-01-01'' ''Dairy & Eggs'' ''X'' ''Me'' ''Me'',
    mk_Expense ''Milk'' (Fin 1) ''2024-01-11'' ''Dairy & Eggs'' ''X'' ''Me'' ''Me'']
   = Inr [(''milk'', \<lparr>dates = [''2024-01-01'', ''2024-01-11''], category_g = ''Dairy & Eggs'',
            name_g = ''Milk''\<rparr>)]"
  by (simp add: group_items_result plain_milk groups_of_runs)

lemma plan_empty_run: "plan lowerASCII isoTime (isoTime ''2024-01-19'')
   [mk_Expense ''Milk'' (Fin 1) ''2024-01-01'' ''Dairy & Eggs'' ''X'' ''Me'' ''Me'',
    mk_Expense ''Milk'' (Fin 1) ''2024-01-11'' ''Dairy & Eggs'' ''X'' ''Me'' ''Me''] ''X''
   = Inr \<lparr>smartBuys = [], otherNeeds = []\<rparr>"
  by (simp add: plan_def group_items_run_two neededItems_run_19 own_entries_one plan_step_def Let_def)

lemma group_items_run_three: "group_items lowerASCII isoTime
   [mk_Expense ''milk'' (Fin 1) ''2024-01-01'' ''Dairy & Eggs'' ''X'' ''Me'' ''Me'',
    mk_Expense ''Milk'' (Fin 1) ''2024-01-10'' ''Dairy & Eggs'' ''X'' ''Me'' ''Me'',
    mk_Expense ''MILK'' (Fin 1) ''2024-01-05'' ''Dairy & Eggs'' ''X'' ''Me'' ''Me'']
   = Inr [(''milk'', \<lparr>dates = [''2024-01-01'', ''2024-01-10'', ''2024-01-05''],
            category_g = ''Dairy & Eggs'', name_g = ''MILK''\<rparr>)]"
  by (simp add: group_items_result plain_milk groups_of_runs)

lemma display_name_run: "map_sum id (map name_s) (itemStats lowerASCII isoTime (isoTime ''2024-01-10'')
   [mk_Expense ''milk'' (Fin 1) ''2024-01-01'' ''Dairy & Eggs'' ''X'' ''Me'' ''Me'',
    mk_Expense ''Milk'' (Fin 1) ''2024-01-10'' ''Dairy & Eggs'' ''X'' ''Me'' ''Me'',
    mk_Expense ''MILK'' (Fin 1) ''2024-01-05'' ''Dairy & Eggs'' ''X'' ''Me'' ''Me'']) = Inr [''MILK'']"
  by (simp add: itemStats_result plain_milk groups_of_runs own_entries_one item_stat_def Let_def)

lemma not_plain_constructor:
  "\<not> plain_names lowerASCII [mk_Expense ''constructor'' a d c s p ow]"
  "\<not> plain_names lowerASCII [mk_Expense ''Milk'' a d c s p ow, mk_Expense ''Constructor '' a' d' c' s' p' ow']"
  by (simp_all add: plain_names_def normName_runs inherited_runs)

section \<open>Claims: replenishment predictor\<close>

text \<open>
  Claim C3 fails on the code at this input: a single purchase, on 2024-01-01, of an item
  described as "constructor". The claim gives a group for the key "constructor" with
  one purchase, and a status. The grouping loop keeps its groups in an object literal:
  the test \<^verbatim>\<open>!items[normName]\<close> finds the constructor that every object inherits, so no
  group is stored, \<^verbatim>\<open>items[normName].dates\<close> is undefined and the \<^verbatim>\<open>push\<close> throws
  a \<^verbatim>\<open>TypeError\<close>: the predictor returns no statistics at all, not even for the other
  items of the list (second part: a list with Milk and "Constructor "). The planner
  contains the same loop and stops in the same way.
\<close>

theorem predictor_failing_input:
  "normName lowerASCII (mk_Expense ''constructor'' (Fin 1) ''2024-01-01'' ''Other'' ''X'' ''Me'' ''Me'')
     = ''constructor'' \<and>
   group_items lowerASCII isoTime
     [mk_Expense ''constructor'' (Fin 1) ''2024-01-01'' ''Other'' ''X'' ''Me'' ''Me''] = Inl TypeError \<and>
   itemStats lowerASCII isoTime (isoTime ''2024-01-20'')
     [mk_Expense ''constructor'' (Fin 1) ''2024-01-01'' ''Other'' ''X'' ''Me'' ''Me''] = Inl TypeError \<and>
   itemStats lowerASCII isoTime (isoTime ''2024-01-20'')
     [mk_Expense ''Milk'' (Fin 1) ''2024-01-01'' ''Dairy & Eggs'' ''X'' ''Me'' ''Me'',
      mk_Expense ''Constructor '' (Fin 1) ''2024-01-11'' ''Other'' ''X'' ''Me'' ''Me''] = Inl TypeError \<and>
   plan lowerASCII isoTime (isoTime ''2024-01-20'')
     [mk_Expense ''constructor'' (Fin 1) ''2024-01-01'' ''Other'' ''X'' ''Me'' ''Me''] ''X'' = Inl TypeError"
  by (simp add: normName_runs group_items_result itemStats_result plan_def not_plain_constructor)

text \<open>
  Claim C4 fails on the code at this input: one item bought on 2024-01-01 and on
  2024-01-11 (average cycle 10 days), seen on 2024-01-19, 8 days after the last purchase.
  The predictor classifies it Running Low (8 is at least 0.8 of 10) and puts it on the
  shopping list; the planner, which asks for 0.9 of the cycle, does not take it as
  needed and plans nothing.
\<close>

theorem needed_items_failing_input:
  "map_sum id (map (\<lambda>i. (name_s i, daysSinceLastPurchase i, avgCycle i, status_s i)))
     (shoppingList lowerASCII isoTime (isoTime ''2024-01-19'')
        [mk_Expense ''Milk'' (Fin 1) ''2024-01-01'' ''Dairy & Eggs'' ''X'' ''Me'' ''Me'',
         mk_Expense ''Milk'' (Fin 1) ''2024-01-11'' ''Dairy & Eggs'' ''X'' ''Me'' ''Me''])
     = Inr [(''Milk'', 8, Some 10, RunningLow)] \<and>
   map_sum id (neededItems isoTime (isoTime ''2024-01-19''))
     (group_items lowerASCII isoTime
        [mk_Expense ''Milk'' (Fin 1) ''2024-01-01'' ''Dairy & Eggs'' ''X'' ''Me'' ''Me'',
         mk_Expense ''Milk'' (Fin 1) ''2024-01-11'' ''Dairy & Eggs'' ''X'' ''Me'' ''Me'']) = Inr [] \<and>
   plan lowerASCII isoTime (isoTime ''2024-01-19'')
     [mk_Expense ''Milk'' (Fin 1) ''2024-01-01'' ''Dairy & Eggs'' ''X'' ''Me'' ''Me'',
      mk_Expense ''Milk'' (Fin 1) ''2024-01-11'' ''Dairy & Eggs'' ''X'' ''Me'' ''Me''] ''X''
     = Inr \<lparr>smartBuys = [], otherNeeds = []\<rparr>"
  by (simp add: shoppingList_run plan_empty_run group_items_run_two neededItems_run_19)

text \<open>
  Claim C9 fails on the code at this input: three purchases of one item, written
  "milk" on 2024-01-01, "Milk" on 2024-01-10 and "MILK" on 2024-01-05, in this order.
  The most recent purchase is the one written "Milk"; the group is displayed as
  "MILK", the description of the last expense in list order that is newer than the
  first one.
\<close>

theorem display_name_failing_input:
  "map_sum id (map (\<lambda>(k, g). (k, name_g g)))
     (group_items lowerASCII isoTime
        [mk_Expense ''milk'' (Fin 1) ''2024-01-01'' ''Dairy & Eggs'' ''X'' ''Me'' ''Me'',
         mk_Expense ''Milk'' (Fin 1) ''2024-01-10'' ''Dairy & Eggs'' ''X'' ''Me'' ''Me'',
         mk_Expense ''MILK'' (Fin 1) ''2024-01-05'' ''Dairy & Eggs'' ''X'' ''Me'' ''Me''])
     = Inr [(''milk'', ''MILK'')] \<and>
   map_sum id (map name_s) (itemStats lowerASCII isoTime (isoTime ''2024-01-10'')
        [mk_Expense ''milk'' (Fin 1) ''2024-01-01'' ''Dairy & Eggs'' ''X'' ''Me'' ''Me'',
         mk_Expense ''Milk'' (Fin 1) ''2024-01-10'' ''Dairy & Eggs'' ''X'' ''Me'' ''Me'',
         mk_Expense ''MILK'' (Fin 1) ''2024-01-05'' ''Dairy & Eggs'' ''X'' ''Me'' ''Me'']) = Inr [''MILK''] \<and>
   isoTime ''2024-01-01'' < isoTime ''2024-01-05'' \<and> isoTime ''2024-01-05'' < isoTime ''2024-01-10''"
proof (intro conjI)
  show "map_sum id (map (\<lambda>(k, g). (k, name_g g)))
     (group_items lowerASCII isoTime
        [mk_Expense ''milk'' (Fin 1) ''2024-01-01'' ''Dairy & Eggs'' ''X'' ''Me'' ''Me'',
         mk_Expense ''Milk'' (Fin 1) ''2024-01-10'' ''Dairy & Eggs'' ''X'' ''Me'' ''Me'',
         mk_Expense ''MILK'' (Fin 1) ''2024-01-05'' ''Dairy & Eggs'' ''X'' ''Me'' ''Me''])
     = Inr [(''milk'', ''MILK'')]"
    by (simp add: group_items_run_three)
  show "map_sum id (map name_s) (itemStats lowerASCII isoTime (isoTime ''2024-01-10'')
        [mk_Expense ''milk'' (Fin 1) ''2024-01-01'' ''Dairy & Eggs'' ''X'' ''Me'' ''Me'',
         mk_Expense ''Milk'' (Fin 1) ''2024-01-10'' ''Dairy & Eggs'' ''X'' ''Me'' ''Me'',
         mk_Expense ''MILK'' (Fin 1) ''2024-01-05'' ''Dairy & Eggs'' ''X'' ''Me'' ''Me'']) = Inr [''MILK'']"
    by (rule display_name_run)
  show "isoTime ''2024-01-01'' < isoTime ''2024-01-05''" by (simp add: isoTime_2024_01_01 isoTime_2024_01_05)
  show "isoTime ''2024-01-05'' < isoTime ''2024-01-10''" by (simp add: isoTime_2024_01_05 isoTime_2024_01_10)
qed


section \<open>Proofs: binary64 rounding\<close>

lemma pow2_powi: "pow2 e = 2 powi e"
  by (simp add: pow2_def power_int_def inverse_eq_divide power_one_over)

lemma pow2_pos: "pow2 e > 0"
  by (simp add: pow2_powi)

lemma pow2_add: "pow2 (a + b) = pow2 a * pow2 b"
  by (simp add: pow2_powi power_int_add)

lemma pow2_mono: "a \<le> b \<Longrightarrow> pow2 a \<le> pow2 b"
  by (simp add: pow2_powi power_int_increasing)

lemma pow2_strict_mono: "a < b \<Longrightarrow> pow2 a < pow2 b"
  by (simp add: pow2_powi power_int_strict_increasing)

lemma pow2_less_iff: "pow2 a < pow2 b \<longleftrightarrow> a < b"
proof
  assume l: "pow2 a < pow2 b"
  show "a < b"
  proof (rule ccontr)
    assume "\<not> a < b"
    then have "pow2 b \<le> pow2 a" by (simp add: pow2_mono)
    with l show False by simp
  qed
qed (rule pow2_strict_mono)

lemma pow2_nat: "pow2 (int n) = 2 ^ n"
  by (simp add: pow2_def)

lemma ilog2_bounds:
  assumes "a > 0"
  shows "pow2 (ilog2 a) \<le> a \<and> a < pow2 (ilog2 a + 1)"
proof -
  obtain p q where pq: "quotient_of a = (p, q)" by (cases "quotient_of a")
  then have q: "q > 0" by (rule quotient_of_denom_pos)
  have a: "a = of_int p / of_int q" using pq by (rule quotient_of_div)
  have p: "p > 0" using assms q unfolding a by (simp add: zero_less_divide_iff)
  let ?fp = "floorlog 2 (nat p)" and ?fq = "floorlog 2 (nat q)"
  let ?d = "int ?fp - int ?fq"
  have bp: "2 ^ (?fp - 1) \<le> nat p \<and> nat p < 2 ^ ?fp"
    using p by (intro floorlog_bounds) auto
  have bq: "2 ^ (?fq - 1) \<le> nat q \<and> nat q < 2 ^ ?fq"
    using q by (intro floorlog_bounds) auto
  have fp1: "?fp \<ge> 1" using bp p by (cases ?fp) auto
  have fq1: "?fq \<ge> 1" using bq q by (cases ?fq) auto
  have rp: "(2::rat) ^ (?fp - 1) \<le> of_int p" "(of_int p :: rat) < 2 ^ ?fp"
  proof -
    from bp have "int (2 ^ (?fp - 1)) \<le> p" "p < int (2 ^ ?fp)" using p by linarith+
    then have "(of_int (int (2 ^ (?fp - 1))) :: rat) \<le> of_int p" "(of_int p :: rat) < of_int (int (2 ^ ?fp))"
      by (simp_all only: of_int_le_iff of_int_less_iff)
    then show "(2::rat) ^ (?fp - 1) \<le> of_int p" "(of_int p :: rat) < 2 ^ ?fp" by simp_all
  qed
  have rq: "(2::rat) ^ (?fq - 1) \<le> of_int q" "(of_int q :: rat) < 2 ^ ?fq"
  proof -
    from bq have "int (2 ^ (?fq - 1)) \<le> q" "q < int (2 ^ ?fq)" using q by linarith+
    then have "(of_int (int (2 ^ (?fq - 1))) :: rat) \<le> of_int q" "(of_int q :: rat) < of_int (int (2 ^ ?fq))"
      by (simp_all only: of_int_le_iff of_int_less_iff)
    then show "(2::rat) ^ (?fq - 1) \<le> of_int q" "(of_int q :: rat) < 2 ^ ?fq" by simp_all
  qed
  have qpos: "(of_int q :: rat) > 0" using q by simp
  have up: "a < pow2 (?d + 1)"
  proof -
    have "a * of_int q = of_int p" using qpos by (simp add: a)
    also have "\<dots> < 2 ^ ?fp" by (rule rp)
    also have "\<dots> = pow2 (int ?fp)" by (simp add: pow2_nat)
    also have "\<dots> = pow2 (?d + 1) * pow2 (int (?fq - 1))"
      using fq1 by (simp flip: pow2_add)
    also have "\<dots> \<le> pow2 (?d + 1) * of_int q"
      using rq(1) pow2_pos[of "?d + 1"] by (simp add: pow2_nat)
    finally show ?thesis using qpos by simp
  qed
  have lo: "pow2 (?d - 1) < a"
  proof -
    have "pow2 (?d - 1) * of_int q < pow2 (?d - 1) * 2 ^ ?fq"
      using rq(2) pow2_pos[of "?d - 1"] by simp
    also have "\<dots> = pow2 (?d - 1) * pow2 (int ?fq)" by (simp add: pow2_nat)
    also have "\<dots> = pow2 (int (?fp - 1))"
      using fp1 by (simp flip: pow2_add)
    also have "\<dots> \<le> of_int p" using rp(1) by (simp add: pow2_nat)
    also have "\<dots> = a * of_int q" using qpos by (simp add: a)
    finally show ?thesis using qpos by simp
  qed
  have il: "ilog2 a = (if pow2 ?d \<le> a then ?d else ?d - 1)"
    by (simp add: ilog2_def pq Let_def)
  show ?thesis
  proof (cases "pow2 ?d \<le> a")
    case True
    then show ?thesis using up il by simp
  next
    case False
    then show ?thesis using lo il by simp
  qed
qed

lemma ilog2_unique:
  assumes "pow2 e \<le> a" "a < pow2 (e + 1)"
  shows "ilog2 a = e"
proof -
  have a: "a > 0" using assms(1) pow2_pos[of e] by simp
  note b = ilog2_bounds[OF a]
  have "pow2 e < pow2 (ilog2 a + 1)" using assms(1) b by simp
  then have 1: "e < ilog2 a + 1" by (simp only: pow2_less_iff)
  have "pow2 (ilog2 a) < pow2 (e + 1)" using assms(2) b by simp
  then have 2: "ilog2 a < e + 1" by (simp only: pow2_less_iff)
  from 1 2 show ?thesis by simp
qed

lemma round_half_even_int: "round_half_even (of_int n) = n"
  by (simp add: round_half_even_def)

lemma round_half_even_frac:
  assumes "b > 0"
  shows "round_half_even (of_int a / of_int b) =
     (if 2 * (a mod b) < b then a div b
      else if 2 * (a mod b) > b then a div b + 1
      else if even (a div b) then a div b else a div b + 1)"
proof -
  have f: "\<lfloor>(of_int a / of_int b :: rat)\<rfloor> = a div b" by (simp only: floor_divide_of_int_eq)
  have bpos: "(of_int b :: rat) > 0" using assms by simp
  have "(of_int (b * (a div b) + a mod b) :: rat) = of_int a" by (simp only: mult_div_mod_eq)
  then have e: "(of_int b * of_int (a div b) + of_int (a mod b) :: rat) = of_int a"
    by (simp only: of_int_add of_int_mult)
  have "(of_int a / of_int b :: rat) - of_int (a div b)
      = (of_int b * of_int (a div b) + of_int (a mod b)) / of_int b - of_int (a div b)"
    by (simp only: e)
  also have "\<dots> = of_int (a mod b) / of_int b"
    using bpos by (simp add: field_simps)
  finally have d: "(of_int a / of_int b :: rat) - of_int (a div b) = of_int (a mod b) / of_int b" .
  have lt: "(of_int (a mod b) / of_int b :: rat) < 1 / 2 \<longleftrightarrow> 2 * (a mod b) < b"
  proof -
    have "(of_int (a mod b) / of_int b :: rat) < 1 / 2 \<longleftrightarrow> (of_int (2 * (a mod b)) :: rat) < of_int b"
      using bpos by (simp add: field_simps)
    then show ?thesis by (simp only: of_int_less_iff)
  qed
  have gt: "(of_int (a mod b) / of_int b :: rat) > 1 / 2 \<longleftrightarrow> 2 * (a mod b) > b"
  proof -
    have "(of_int (a mod b) / of_int b :: rat) > 1 / 2 \<longleftrightarrow> (of_int (2 * (a mod b)) :: rat) > of_int b"
      using bpos by (simp add: field_simps)
    then show ?thesis by (simp only: of_int_less_iff)
  qed
  show ?thesis
    unfolding round_half_even_def Let_def d lt gt f by simp
qed

lemma rnd_eval:
  assumes "pow2 e \<le> \<bar>x\<bar>" "\<bar>x\<bar> < pow2 (e + 1)" "- 1022 \<le> e" "e \<le> 1022"
  shows "rnd x = Fin (sgn x * (of_int (round_half_even (\<bar>x\<bar> / pow2 (e - 52))) * pow2 (e - 52)))"
proof -
  have x0: "x \<noteq> 0" using assms(1) pow2_pos[of e] by auto
  have il: "ilog2 \<bar>x\<bar> = e" using assms(1,2) by (rule ilog2_unique)
  let ?u = "pow2 (e - 52)"
  let ?y = "\<bar>x\<bar> / ?u"
  let ?m = "round_half_even ?y"
  have upos: "?u > 0" by (rule pow2_pos)
  have "?y < pow2 (e + 1) / ?u" using assms(2) upos by (simp add: divide_strict_right_mono)
  also have "pow2 (e + 1) / ?u = pow2 53"
  proof -
    have "pow2 53 * ?u = pow2 (53 + (e - 52))" by (simp only: pow2_add)
    also have "53 + (e - 52) = e + 1" by simp
    finally have "pow2 53 * ?u = pow2 (e + 1)" .
    from this[symmetric] show ?thesis using upos by simp
  qed
  finally have y: "?y < of_int (2 ^ 53)" by (simp add: pow2_def)
  have "?m \<le> 2 ^ 53"
  proof -
    have fl: "\<lfloor>?y\<rfloor> < 2 ^ 53" using y by (simp only: floor_less_iff)
    have "?m \<le> \<lfloor>?y\<rfloor> + 1" by (simp add: round_half_even_def Let_def)
    then show ?thesis using fl by linarith
  qed
  then have "(of_int ?m :: rat) \<le> of_int (2 ^ 53)" by (simp only: of_int_le_iff)
  then have "of_int ?m * ?u \<le> pow2 53 * ?u"
    using upos by (simp add: pow2_def)
  also have "\<dots> = pow2 (53 + (e - 52))" by (simp only: pow2_add)
  also have "53 + (e - 52) = e + 1" by simp
  also have "pow2 (e + 1) < pow2 1024" using assms(4) by (simp add: pow2_less_iff)
  finally have no: "\<not> of_int ?m * ?u \<ge> pow2 1024" by simp
  have me: "max (ilog2 \<bar>x\<bar>) (- 1022) = e" using il assms(3) by simp
  have "rnd x = (if of_int ?m * ?u \<ge> pow2 1024 then (if x > 0 then PosInf else NegInf)
                 else Fin (sgn x * (of_int ?m * ?u)))"
    using x0 unfolding rnd_def Let_def me by (simp only: if_False)
  then show ?thesis using no by (simp only: if_False)
qed

lemma rnd_exact:
  assumes x: "x = of_int m * pow2 k" and m: "m \<noteq> 0" "\<bar>m\<bar> < 2 ^ 53"
    and k: "- 1074 \<le> k" and lim: "\<bar>x\<bar> < pow2 1024"
  shows "rnd x = Fin x"
proof -
  have x0: "x \<noteq> 0" using m(1) pow2_pos[of k] by (simp add: x)
  define a where "a = \<bar>x\<bar>"
  define e where "e = max (ilog2 a) (- 1022)"
  define u where "u = pow2 (e - 52)"
  define j where "j = k - (e - 52)"
  have apos: "a > 0" using x0 by (simp add: a_def)
  note b = ilog2_bounds[OF apos]
  have a_eq: "a = of_int \<bar>m\<bar> * pow2 k"
    using pow2_pos[of k] by (simp add: a_def x abs_mult)
  have ke: "j \<ge> 0"
  proof (cases "ilog2 a \<ge> - 1022")
    case True
    have "(of_int \<bar>m\<bar> :: rat) < of_int (2 ^ 53)" using m(2) by (simp only: of_int_less_iff)
    then have "(of_int \<bar>m\<bar> :: rat) < pow2 53" by (simp add: pow2_def)
    then have "a < pow2 53 * pow2 k" using pow2_pos[of k] by (simp add: a_eq)
    then have "pow2 (ilog2 a) < pow2 (53 + k)" using b by (simp add: pow2_add)
    then have "ilog2 a < 53 + k" by (simp only: pow2_less_iff)
    then show ?thesis using True by (simp add: j_def e_def)
  next
    case False
    then show ?thesis using k by (simp add: j_def e_def)
  qed
  have upos: "u > 0" unfolding u_def by (rule pow2_pos)
  have "pow2 j * u = pow2 (j + (e - 52))" unfolding u_def by (simp only: pow2_add)
  also have "j + (e - 52) = k" by (simp add: j_def)
  finally have pk: "pow2 k = pow2 j * u" by simp
  have pj: "pow2 j = of_int (2 ^ nat j)" using ke by (simp add: pow2_def)
  have "a / u = of_int \<bar>m\<bar> * pow2 j" using upos by (simp add: a_eq pk)
  also have "\<dots> = of_int (\<bar>m\<bar> * 2 ^ nat j)" by (simp only: pj of_int_mult)
  finally have "round_half_even (a / u) = \<bar>m\<bar> * 2 ^ nat j"
    by (simp only: round_half_even_int)
  then have "of_int (round_half_even (a / u)) * u = of_int \<bar>m\<bar> * pow2 j * u"
    by (simp only: pj of_int_mult)
  also have "\<dots> = a" by (simp add: a_eq pk)
  finally have r: "of_int (round_half_even (a / u)) * u = a" .
  have s: "sgn x * a = x" by (simp add: a_def sgn_if)
  have "rnd x = (if a \<ge> pow2 1024 then (if x > 0 then PosInf else NegInf) else Fin (sgn x * a))"
    using x0 unfolding rnd_def Let_def a_def[symmetric] e_def[symmetric] u_def[symmetric] r
    by (simp only: if_False)
  then show ?thesis using lim s by (simp add: a_def)
qed

lemma rnd_int:
  assumes "\<bar>n\<bar> < 2 ^ 53"
  shows "rnd (of_int n) = Fin (of_int n)"
proof (cases "n = 0")
  case True
  then show ?thesis by (simp add: rnd_def)
next
  case False
  have "(of_int \<bar>n\<bar> :: rat) < of_int (2 ^ 53)" using assms by (simp only: of_int_less_iff)
  also have "(of_int (2 ^ 53) :: rat) = pow2 53" by (simp add: pow2_def)
  also have "pow2 53 < pow2 1024" by (simp add: pow2_less_iff)
  finally have lim: "\<bar>of_int n :: rat\<bar> < pow2 1024" by simp
  have x: "(of_int n :: rat) = of_int n * pow2 0" by (simp add: pow2_def)
  have k: "- 1074 \<le> (0::int)" by simp
  show ?thesis using x False assms k lim by (rule rnd_exact)
qed

lemma rnd_numeral:
  assumes "(numeral w :: int) < 2 ^ 53"
  shows "rnd (numeral w) = Fin (numeral w)"
  using rnd_int[of "numeral w"] assms by simp

lemma rnd_simple: "rnd 0 = Fin 0" "rnd 1 = Fin 1"
  using rnd_int[of 1] by (simp_all add: rnd_def)

lemma rnd_dyadic:
  assumes "m \<noteq> 0" "\<bar>m\<bar> < 2 ^ 53" "j \<le> 1074"
  shows "rnd (of_int m / 2 ^ j) = Fin (of_int m / 2 ^ j)"
proof -
  have x: "(of_int m / 2 ^ j :: rat) = of_int m * pow2 (- int j)"
    by (simp add: pow2_def)
  have k: "- 1074 \<le> - int j" using assms(3) by simp
  have "\<bar>of_int m / 2 ^ j :: rat\<bar> \<le> of_int \<bar>m\<bar>"
    by (simp add: divide_le_eq mult_le_cancel_left1)
  also have "(of_int \<bar>m\<bar> :: rat) < of_int (2 ^ 53)" using assms(2) by (simp only: of_int_less_iff)
  also have "(of_int (2 ^ 53) :: rat) = pow2 53" by (simp add: pow2_def)
  also have "pow2 53 < pow2 1024" by (simp add: pow2_less_iff)
  finally have lim: "\<bar>of_int m / 2 ^ j :: rat\<bar> < pow2 1024" .
  show ?thesis using x assms(1,2) k lim by (rule rnd_exact)
qed

section \<open>Proofs: search\<close>


subsection \<open>White space\<close>













subsection \<open>Bills\<close>










section \<open>Claims: search\<close>













section \<open>Proofs: store optimizer\<close>

lemma dlt_irrefl: "\<not> dlt a a"
  by (cases a) simp_all

lemma dlt_trans: "dlt a b \<Longrightarrow> dlt b c \<Longrightarrow> dlt a c"
  by (cases a; cases b; cases c) simp_all

lemma dlt_between: "dlt a c \<Longrightarrow> dlt b PosInf \<Longrightarrow> dlt a b \<or> dlt b c"
  by (cases a; cases b; cases c) auto

lemma dlt_below_inf: "dlt a b \<Longrightarrow> dlt a PosInf"
  by (cases a; cases b) simp_all

lemma dlt_not_below_inf: "\<not> dlt a PosInf \<Longrightarrow> \<not> dlt a b"
  by (cases a; cases b) simp_all

lemma find_append_case:
  "find P (xs @ ys) = (case find P xs of None \<Rightarrow> find P ys | Some x \<Rightarrow> Some x)"
  by (induction xs) auto

lemma find_map_eq: "find P (map f xs) = map_option f (find (\<lambda>x. P (f x)) xs)"
  by (induction xs) auto

lemma find_weaker:
  "find P xs = Some p \<Longrightarrow> Q p \<Longrightarrow> (\<forall>q\<in>set xs. Q q \<longrightarrow> P q) \<Longrightarrow> find Q xs = Some p"
  by (induction xs) (auto split: if_splits)

lemma exists_unbeaten:
  assumes "\<exists>p\<in>set ps. dlt (a p) PosInf"
  shows "\<exists>p\<in>set ps. dlt (a p) PosInf \<and> (\<forall>q\<in>set ps. \<not> dlt (a q) (a p))"
  using assms
proof (induction ps)
  case Nil
  then show ?case by simp
next
  case (Cons x ps)
  show ?case
  proof (cases "\<exists>p\<in>set ps. dlt (a p) PosInf")
    case False
    then have x: "dlt (a x) PosInf" using Cons.prems by auto
    have "\<forall>q\<in>set (x # ps). \<not> dlt (a q) (a x)"
      using False dlt_not_below_inf dlt_irrefl by auto
    then show ?thesis using x by auto
  next
    case True
    then obtain p where p: "p \<in> set ps" "dlt (a p) PosInf" "\<forall>q\<in>set ps. \<not> dlt (a q) (a p)"
      using Cons.IH by blast
    show ?thesis
    proof (cases "dlt (a x) (a p)")
      case False
      then show ?thesis using p by auto
    next
      case True
      have "\<not> dlt (a q) (a x)" if "q \<in> set ps" for q
        using dlt_trans[OF _ True, of "a q"] p(3) that by blast
      then have "\<forall>q\<in>set (x # ps). \<not> dlt (a q) (a x)" using dlt_irrefl by auto
      then show ?thesis using dlt_below_inf[OF True] by auto
    qed
  qed
qed

lemma running_minimum:
  "foldl (\<lambda>acc p. if dlt (a p) (snd acc) then (nm p, a p) else acc) ([], PosInf) ps
     = (case find (\<lambda>p. dlt (a p) PosInf \<and> (\<forall>q\<in>set ps. \<not> dlt (a q) (a p))) ps of
          Some p \<Rightarrow> (nm p, a p)
        | None \<Rightarrow> ([], PosInf))"
proof (induction ps rule: rev_induct)
  case Nil
  then show ?case by simp
next
  case (snoc x ps)
  let ?low = "\<lambda>l p. dlt (a p) PosInf \<and> (\<forall>q\<in>set l. \<not> dlt (a q) (a p))"
  let ?l' = "ps @ [x]"
  show ?case
  proof (cases "find (?low ps) ps")
    case None
    then have "\<not> (\<exists>p\<in>set ps. ?low ps p)" by (simp add: find_None_iff)
    then have none: "\<forall>p\<in>set ps. \<not> dlt (a p) PosInf"
      using exists_unbeaten[of ps a] by blast
    then have nf: "find (?low ?l') ps = None" by (auto simp: find_None_iff)
    have acc: "foldl (\<lambda>acc p. if dlt (a p) (snd acc) then (nm p, a p) else acc) ([], PosInf) ps
        = ([], PosInf)"
      using snoc None by simp
    show ?thesis
    proof (cases "dlt (a x) PosInf")
      case True
      have "\<forall>q\<in>set ?l'. \<not> dlt (a q) (a x)"
        using none dlt_not_below_inf dlt_irrefl by auto
      then have "?low ?l' x" using True by simp
      then show ?thesis using True acc nf by (simp add: find_append_case)
    next
      case False
      then show ?thesis using acc nf by (simp add: find_append_case)
    qed
  next
    case (Some p)
    then have p: "p \<in> set ps" "?low ps p" by (auto simp: find_Some_iff)
    have acc: "foldl (\<lambda>acc p. if dlt (a p) (snd acc) then (nm p, a p) else acc) ([], PosInf) ps
        = (nm p, a p)"
      using snoc Some by simp
    show ?thesis
    proof (cases "dlt (a x) (a p)")
      case True
      have "\<not> ?low ?l' q" if "q \<in> set ps" for q
      proof
        assume l: "?low ?l' q"
        then have "\<not> dlt (a x) (a q)" by simp
        moreover have "\<not> dlt (a q) (a p)" using p(2) that by simp
        ultimately show False using dlt_between[OF True, of "a q"] l by blast
      qed
      then have nf: "find (?low ?l') ps = None" by (simp add: find_None_iff)
      have "\<not> dlt (a q) (a x)" if "q \<in> set ps" for q
        using dlt_trans[OF _ True, of "a q"] p(2) that by blast
      then have "\<forall>q\<in>set ?l'. \<not> dlt (a q) (a x)" using dlt_irrefl by auto
      then have "?low ?l' x" using dlt_below_inf[OF True] by simp
      then show ?thesis using True acc nf by (simp add: find_append_case)
    next
      case False
      have lp: "?low ?l' p" using p(2) False by simp
      have "\<forall>q\<in>set ps. ?low ?l' q \<longrightarrow> ?low ps q" by simp
      with Some lp have "find (?low ?l') ps = Some p" by (rule find_weaker)
      then show ?thesis using False acc by (simp add: find_append_case)
    qed
  qed
qed

lemma storeStats_step_upsert:
  "storeStats_step st e = upsert_obj (store_key e) \<lparr>sum_s = Fin 0, count_s = 0\<rparr>
      (\<lambda>r. \<lparr>sum_s = fadd (sum_s r) (amount e), count_s = count_s r + 1\<rparr>) st"
  by (simp add: storeStats_step_def upsert_obj_def Let_def)

lemma store_fold:
  "foldl (\<lambda>v e. \<lparr>sum_s = fadd (sum_s v) (amount e), count_s = count_s v + 1\<rparr>) r ys
     = \<lparr>sum_s = foldl fadd (sum_s r) (map amount ys), count_s = count_s r + length ys\<rparr>"
  by (induction ys arbitrary: r) auto

lemma storeStats_entries:
  assumes "plain_stores xs"
  shows "storeStats xs = map (\<lambda>s. (s, \<lparr>sum_s = fsum (map amount (filter (\<lambda>e. store_key e = s) xs)),
                                  count_s = length (filter (\<lambda>e. store_key e = s) xs)\<rparr>))
                             (firsts (map store_key xs))"
proof -
  let ?i = "\<lambda>e::Expense. \<lparr>sum_s = Fin 0, count_s = 0\<rparr>"
  let ?f = "\<lambda>(e::Expense) r. \<lparr>sum_s = fadd (sum_s r) (amount e), count_s = count_s r + 1\<rparr>"
  have "storeStats xs = foldl (\<lambda>m e. upsert_obj (store_key e) (?i e) (?f e) m) [] xs"
    unfolding storeStats_def
    by (rule arg_cong[where f = "\<lambda>g. foldl g [] xs"]) (simp add: storeStats_step_upsert fun_eq_iff)
  also have "\<dots> = foldl (\<lambda>m e. upsert (store_key e) (?i e) (?f e) m) []
                     (filter (\<lambda>e. store_key e \<notin> set inherited_names) xs)"
    by (rule fold_upsert_obj)
  also have "filter (\<lambda>e. store_key e \<notin> set inherited_names) xs = xs"
    using assms by (simp add: plain_stores_def)
  finally have ss: "storeStats xs = foldl (\<lambda>m e. upsert (store_key e) (?i e) (?f e) m) [] xs" .
  have val: "the (fold_group ?i ?f (filter (\<lambda>e. store_key e = s) xs))
       = \<lparr>sum_s = fsum (map amount (filter (\<lambda>e. store_key e = s) xs)),
          count_s = length (filter (\<lambda>e. store_key e = s) xs)\<rparr>"
    if "s \<in> set (map store_key xs)" for s
  proof -
    have "filter (\<lambda>e. store_key e = s) xs \<noteq> []"
      using that by (auto simp: filter_empty_conv)
    then obtain y ys where ys: "filter (\<lambda>e. store_key e = s) xs = y # ys"
      by (cases "filter (\<lambda>e. store_key e = s) xs") auto
    show ?thesis
      by (simp only: ys fold_group_def list.case option.sel store_fold) (simp add: fsum_def)
  qed
  show ?thesis unfolding ss
  proof (subst fold_upsert_entries, rule map_cong[OF refl])
    fix s assume "s \<in> set (firsts (map store_key xs))"
    then have "s \<in> set (map store_key xs)" by (simp only: set_firsts)
    then show "(s, the (fold_group ?i ?f (filter (\<lambda>e. store_key e = s) xs)))
       = (s, \<lparr>sum_s = fsum (map amount (filter (\<lambda>e. store_key e = s) xs)),
          count_s = length (filter (\<lambda>e. store_key e = s) xs)\<rparr>)"
      by (simp only: val)
  qed
qed

lemma plain_stores_filter: "plain_stores es \<Longrightarrow> plain_stores (filter P es)"
  by (simp add: plain_stores_def)

lemma plan_item_spec:
  assumes xs: "xs = item_expenses lower es k" and ps: "plain_stores es"
    and S: "S \<notin> set inherited_names"
  shows "plan_item lower es S k g =
     (if S \<in> set (stores_of xs)
      then if stores_of xs = [S]
           then (True, planned g Exclusive (avg_price xs S) None None)
           else if first_cheapest xs = S
           then (True, planned g BestPrice (avg_price xs S) None None)
           else (False, planned g Needed (avg_price xs S) (Some (first_cheapest xs))
                          (Some (fsub (avg_price xs S) (min_avg xs))))
      else (False, planned g Needed (Fin 0) (Some (first_cheapest xs)) None))"
proof -
  let ?r = "\<lambda>s. \<lparr>sum_s = fsum (map amount (filter (\<lambda>e. store_key e = s) xs)),
                 count_s = length (filter (\<lambda>e. store_key e = s) xs)\<rparr>"
  let ?st = "map (\<lambda>s. (s, ?r s)) (firsts (map store_key xs))"
  have pxs: "plain_stores xs" unfolding xs item_expenses_def using ps by (rule plain_stores_filter)
  have st: "storeStats (filter (\<lambda>e. normName lower e = k) es) = ?st"
    using storeStats_entries[OF pxs] xs by (simp add: item_expenses_def)
  have avg: "avg_of (?r s) = avg_price xs s" for s
    by (simp add: avg_of_def avg_price_def)
  have own: "own_entries ?st = map (\<lambda>s. (s, ?r s)) (stores_of xs)"
    unfolding stores_of_def by (rule own_entries_map)
  have keys: "map fst (own_entries ?st) = stores_of xs" by (simp add: own o_def)
  have "cheapest ?st = foldl (\<lambda>acc p. if dlt (avg_of (snd p)) (snd acc) then (fst p, avg_of (snd p)) else acc)
                         ([], PosInf) (map (\<lambda>s. (s, ?r s)) (stores_of xs))"
    unfolding cheapest_def own
    by (rule arg_cong[where f = "\<lambda>g. foldl g ([], PosInf) (map (\<lambda>s. (s, ?r s)) (stores_of xs))"])
       (simp add: cheapest_step_def fun_eq_iff Let_def)
  also have "\<dots> = (case find (lowest xs) (stores_of xs) of
                     Some s \<Rightarrow> (s, avg_price xs s) | None \<Rightarrow> ([], PosInf))"
    unfolding running_minimum find_map_eq by (simp add: avg lowest_def[abs_def] split: option.splits)
  finally have ch: "cheapest ?st = (first_cheapest xs, min_avg xs)"
    by (simp add: first_cheapest_def min_avg_def split: option.splits)
  have mem: "S \<in> set (firsts (map store_key xs)) \<longleftrightarrow> S \<in> set (stores_of xs)"
    by (simp add: stores_of_def set_enum_order)
  have lk: "map_of ?st S = (if S \<in> set (stores_of xs) then Some (?r S) else None)"
    by (simp add: map_of_map_restrict restrict_map_def o_def mem[symmetric])
  have sel: "avgAtSelected_of ?st S = (if S \<in> set (stores_of xs) then Some (avg_price xs S) else None)"
    unfolding avgAtSelected_of_def lk using S by (simp add: avg)
  have uq: "(case stores_of xs of [s] \<Rightarrow> Some s | _ \<Rightarrow> None) = Some S \<longleftrightarrow> stores_of xs = [S]"
    by (auto split: list.splits)
  show ?thesis
    unfolding plan_item_def st Let_def keys ch sel
    using uq by (simp add: planned_def)
qed

lemma plan_fold:
  "foldl (plan_step lower es S needed) acc gs =
     \<lparr>smartBuys = smartBuys acc @
         map snd (filter fst (map (\<lambda>g. plan_item lower es S (fst g) (snd g))
                                  (filter (\<lambda>g. fst g \<in> set needed) gs))),
      otherNeeds = otherNeeds acc @
         map snd (filter (\<lambda>r. \<not> fst r) (map (\<lambda>g. plan_item lower es S (fst g) (snd g))
                                  (filter (\<lambda>g. fst g \<in> set needed) gs)))\<rparr>"
  by (induction gs arbitrary: acc) (auto simp: plan_step_def Let_def)

lemma needed_filter:
  assumes "distinct (map fst gs)"
  shows "filter (\<lambda>g. fst g \<in> set (map fst (filter P gs))) gs = filter P gs"
proof (rule filter_cong[OF refl])
  fix x assume x: "x \<in> set gs"
  show "(fst x \<in> set (map fst (filter P gs))) = P x"
  proof
    assume "fst x \<in> set (map fst (filter P gs))"
    then obtain y where y: "y \<in> set gs" "P y" "fst y = fst x" by auto
    then have "y = x" using assms x by (metis eq_key_imp_eq_value prod.collapse)
    then show "P x" using y by simp
  next
    assume "P x"
    then show "fst x \<in> set (map fst (filter P gs))" using x by force
  qed
qed

lemma plan_spec:
  assumes "S \<noteq> []" and "plain_names lower es"
  shows "plan lower tm now es S = Inr
           \<lparr>smartBuys = map snd (filter fst (map (\<lambda>(k, g). plan_item lower es S k g)
                (filter (\<lambda>(k, g). group_needed tm now g) (own_entries (groups_of lower tm es))))),
            otherNeeds = map snd (filter (\<lambda>r. \<not> fst r) (map (\<lambda>(k, g). plan_item lower es S k g)
                (filter (\<lambda>(k, g). group_needed tm now g) (own_entries (groups_of lower tm es)))))\<rparr>"
proof -
  let ?G = "own_entries (groups_of lower tm es)"
  have d: "distinct (map fst ?G)"
    by (simp add: distinct_own_entries group_keys distinct_firsts)
  have n: "neededItems tm now (groups_of lower tm es)
      = map fst (filter (\<lambda>(k, g). group_needed tm now g) ?G)"
    by (simp add: neededItems_def)
  have fl: "filter (\<lambda>g. fst g \<in> set (neededItems tm now (groups_of lower tm es))) ?G
      = filter (\<lambda>(k, g). group_needed tm now g) ?G"
    unfolding n by (rule needed_filter[OF d])
  have "plan lower tm now es S
      = Inr (foldl (plan_step lower es S (neededItems tm now (groups_of lower tm es)))
               \<lparr>smartBuys = [], otherNeeds = []\<rparr> ?G)"
    using assms by (simp add: plan_def group_items_result Let_def)
  then show ?thesis
    by (simp only: plan_fold fl) (simp add: case_prod_unfold)
qed

lemma first_cheapest_props:
  assumes "\<exists>s\<in>set (stores_of xs). dlt (avg_price xs s) PosInf"
  shows "first_cheapest xs \<in> set (stores_of xs) \<and> lowest xs (first_cheapest xs) \<and>
         min_avg xs = avg_price xs (first_cheapest xs)"
proof -
  have "\<exists>s\<in>set (stores_of xs). lowest xs s"
    using exists_unbeaten[OF assms] by (simp add: lowest_def)
  then obtain s where s: "find (lowest xs) (stores_of xs) = Some s"
    by (cases "find (lowest xs) (stores_of xs)") (auto simp: find_None_iff)
  then have "s \<in> set (stores_of xs)" "lowest xs s" by (auto simp: find_Some_iff)
  then show ?thesis using s by (simp add: first_cheapest_def min_avg_def)
qed


lemma own_entries_plain: "\<forall>p\<in>set m. \<not> is_array_index (fst p) \<Longrightarrow> own_entries m = m"
  by (simp add: own_entries_def enum_order_def filter_empty_conv)

lemma sortDates_run_stores: "sortDates isoTime [''2024-01-01'', ''2024-01-02''] = [''2024-01-02'', ''2024-01-01'']"
  by (simp add: sortDates_def isoTime_2024_01_01 isoTime_2024_01_02)

lemma daysSince_run_stores: "daysSince_of isoTime (isoTime ''2024-03-01'') [''2024-01-02'', ''2024-01-01''] = 59"
  by (simp add: daysSince_of_div isoTime_2024_01_02 isoTime_2024_03_01)

lemma avgCycle_run_stores: "avgCycle_of isoTime [''2024-01-02'', ''2024-01-01''] = Some 1"
  by (simp add: avgCycle_of_div isoTime_2024_01_01 isoTime_2024_01_02)

lemma group_needed_run_stores:
  "group_needed isoTime (isoTime ''2024-03-01'')
     \<lparr>dates = [''2024-01-01'', ''2024-01-02''], category_g = ''Dairy & Eggs'', name_g = ''Milk''\<rparr>"
  by (simp add: group_needed_def sortDates_run_stores daysSince_run_stores avgCycle_run_stores
        shelfLife_dairy isNeeded_of_def Let_def)

lemma neededItems_run_stores: "neededItems isoTime (isoTime ''2024-03-01'') [(''milk'', \<lparr>dates = [''2024-01-01'', ''2024-01-02''],
       category_g = ''Dairy & Eggs'', name_g = ''Milk''\<rparr>)] = [''milk'']"
  by (simp add: neededItems_def own_entries_one group_needed_run_stores)

lemma storeStats_run: "storeStats
   [mk_Expense ''Milk'' (Fin 2) ''2024-01-01'' ''Dairy & Eggs'' ''A'' ''Me'' ''Me'',
    mk_Expense ''Milk'' (Fin 2) ''2024-01-02'' ''Dairy & Eggs'' ''B'' ''Me'' ''Me'']
   = [(''A'', \<lparr>sum_s = Fin 2, count_s = Suc 0\<rparr>), (''B'', \<lparr>sum_s = Fin 2, count_s = Suc 0\<rparr>)]"
  by (simp add: storeStats_def storeStats_step_def store_key_def mk_Expense_def js_truthy_def
        inherited_runs rnd_numeral Let_def)

lemma avg_run: "avg_of \<lparr>sum_s = Fin 2, count_s = Suc 0\<rparr> = Fin 2"
  by (simp add: avg_of_def rnd_numeral)

lemma cheapest_run: "cheapest [(''A'', \<lparr>sum_s = Fin 2, count_s = Suc 0\<rparr>), (''B'', \<lparr>sum_s = Fin 2, count_s = Suc 0\<rparr>)]
    = (''A'', Fin 2)"
  by (simp add: cheapest_def own_entries_plain index_runs cheapest_step_def avg_run Let_def)

lemma plan_item_run: "plan_item lowerASCII
   [mk_Expense ''Milk'' (Fin 2) ''2024-01-01'' ''Dairy & Eggs'' ''A'' ''Me'' ''Me'',
    mk_Expense ''Milk'' (Fin 2) ''2024-01-02'' ''Dairy & Eggs'' ''B'' ''Me'' ''Me''] ''B'' ''milk''
    \<lparr>dates = [''2024-01-01'', ''2024-01-02''], category_g = ''Dairy & Eggs'', name_g = ''Milk''\<rparr>
   = (False, \<lparr>name_p = ''Milk'', category_p = ''Dairy & Eggs'', reason_p = Needed, avgPriceHere = Fin 2,
              cheapestStore = Some ''A'', savings = Some (Fin 0), isNeeded = True\<rparr>)"
  by (simp add: plan_item_def normName_runs storeStats_run cheapest_run avgAtSelected_of_def avg_run
        own_entries_plain index_runs fsub_def rnd_simple Let_def)

lemma group_items_run_stores: "group_items lowerASCII isoTime
   [mk_Expense ''Milk'' (Fin 2) ''2024-01-01'' ''Dairy & Eggs'' ''A'' ''Me'' ''Me'',
    mk_Expense ''Milk'' (Fin 2) ''2024-01-02'' ''Dairy & Eggs'' ''B'' ''Me'' ''Me'']
   = Inr [(''milk'', \<lparr>dates = [''2024-01-01'', ''2024-01-02''], category_g = ''Dairy & Eggs'',
            name_g = ''Milk''\<rparr>)]"
  by (simp add: group_items_result plain_milk groups_of_runs)

lemma plan_run_stores: "plan lowerASCII isoTime (isoTime ''2024-03-01'')
   [mk_Expense ''Milk'' (Fin 2) ''2024-01-01'' ''Dairy & Eggs'' ''A'' ''Me'' ''Me'',
    mk_Expense ''Milk'' (Fin 2) ''2024-01-02'' ''Dairy & Eggs'' ''B'' ''Me'' ''Me''] ''B''
   = Inr \<lparr>smartBuys = [],
      otherNeeds = [\<lparr>name_p = ''Milk'', category_p = ''Dairy & Eggs'', reason_p = Needed,
                     avgPriceHere = Fin 2, cheapestStore = Some ''A'', savings = Some (Fin 0),
                     isNeeded = True\<rparr>]\<rparr>"
  by (simp add: plan_def group_items_run_stores neededItems_run_stores own_entries_one plan_step_def
        plan_item_run Let_def)

lemma spec_run_stores:
  "stores_of [mk_Expense ''Milk'' (Fin 2) ''2024-01-01'' ''Dairy & Eggs'' ''A'' ''Me'' ''Me'',
              mk_Expense ''Milk'' (Fin 2) ''2024-01-02'' ''Dairy & Eggs'' ''B'' ''Me'' ''Me''] = [''A'', ''B'']"
  "avg_price [mk_Expense ''Milk'' (Fin 2) ''2024-01-01'' ''Dairy & Eggs'' ''A'' ''Me'' ''Me'',
              mk_Expense ''Milk'' (Fin 2) ''2024-01-02'' ''Dairy & Eggs'' ''B'' ''Me'' ''Me''] ''A'' = Fin 2"
  "avg_price [mk_Expense ''Milk'' (Fin 2) ''2024-01-01'' ''Dairy & Eggs'' ''A'' ''Me'' ''Me'',
              mk_Expense ''Milk'' (Fin 2) ''2024-01-02'' ''Dairy & Eggs'' ''B'' ''Me'' ''Me''] ''B'' = Fin 2"
  by (simp_all add: stores_of_def firsts_def enum_order_def index_runs avg_price_def fsum_def
        store_key_def mk_Expense_def rnd_numeral)

section \<open>Claims: store optimizer\<close>

text \<open>
  Claim C5, as stated, fails in case (b): two stores with the same average price.
  Milk was bought at A and then at B, for 2 each time, and is needed on 2024-03-01. For
  the selected store B the item was purchased there, B is not its only store, and B has
  the global minimum average price (both averages are 2); the claim makes it a smart
  buy with reason "Best Price". The planner records A, the first store with the minimum,
  as the cheapest store and puts the item into the other needs, with savings 0.
\<close>

theorem plan_counterexample:
  "stores_of [mk_Expense ''Milk'' (Fin 2) ''2024-01-01'' ''Dairy & Eggs'' ''A'' ''Me'' ''Me'',
              mk_Expense ''Milk'' (Fin 2) ''2024-01-02'' ''Dairy & Eggs'' ''B'' ''Me'' ''Me''] = [''A'', ''B''] \<and>
   avg_price [mk_Expense ''Milk'' (Fin 2) ''2024-01-01'' ''Dairy & Eggs'' ''A'' ''Me'' ''Me'',
              mk_Expense ''Milk'' (Fin 2) ''2024-01-02'' ''Dairy & Eggs'' ''B'' ''Me'' ''Me''] ''A'' = Fin 2 \<and>
   avg_price [mk_Expense ''Milk'' (Fin 2) ''2024-01-01'' ''Dairy & Eggs'' ''A'' ''Me'' ''Me'',
              mk_Expense ''Milk'' (Fin 2) ''2024-01-02'' ''Dairy & Eggs'' ''B'' ''Me'' ''Me''] ''B'' = Fin 2 \<and>
   plan lowerASCII isoTime (isoTime ''2024-03-01'')
     [mk_Expense ''Milk'' (Fin 2) ''2024-01-01'' ''Dairy & Eggs'' ''A'' ''Me'' ''Me'',
      mk_Expense ''Milk'' (Fin 2) ''2024-01-02'' ''Dairy & Eggs'' ''B'' ''Me'' ''Me''] ''B''
   = Inr \<lparr>smartBuys = [],
      otherNeeds = [\<lparr>name_p = ''Milk'', category_p = ''Dairy & Eggs'', reason_p = Needed,
                     avgPriceHere = Fin 2, cheapestStore = Some ''A'', savings = Some (Fin 0),
                     isNeeded = True\<rparr>]\<rparr>"
  using spec_run_stores plan_run_stores by (intro conjI)

text \<open>
  Claim C5, amended. For every expense list in which no description normalises to an
  inherited name and no store is named by one, every selected store that is given and
  is not such a name, and every item group, with \<open>xs\<close> the purchases of the item: the smart buys and
  the other needs are what the rule below gives for the groups the planner takes as
  needed, in the order in which the planner goes through the groups. The rule: if the
  item was purchased at the selected store, then (a) if that is the only store of the
  item, it is a smart buy with reason Exclusive; (b) otherwise, if the selected store
  is the cheapest store, it is a smart buy with reason Best Price; (c) otherwise it
  goes to the other needs with the cheapest store recorded and savings equal to its
  average price at the selected store minus the minimum average price (zero when the
  selected store ties for the minimum). If the item was never purchased at the selected
  store, it goes to the other needs with price-here zero, no savings, and the cheapest
  store noted. The cheapest store is the first store, in the order in which the planner
  goes through the stores of the item (store names that are array indices first, in
  ascending order, then the other names in the order of first purchase), whose average
  price no store undercuts; an average is the rounded sum of the prices paid at the
  store over their number. An expense without a store name counts for the store
  "Unknown".
\<close>

theorem plan_contract:
  assumes "S \<noteq> []" and "S \<notin> set inherited_names"
    and "plain_names lower es" and "plain_stores es"
  shows "group_items lower tm es = Inr (groups_of lower tm es) \<and>
         map fst (groups_of lower tm es) = firsts (map (normName lower) es) \<and>
         plan lower tm now es S = Inr
           \<lparr>smartBuys = map snd (filter fst (map (\<lambda>(k, g). plan_item lower es S k g)
                (filter (\<lambda>(k, g). group_needed tm now g) (own_entries (groups_of lower tm es))))),
            otherNeeds = map snd (filter (\<lambda>r. \<not> fst r) (map (\<lambda>(k, g). plan_item lower es S k g)
                (filter (\<lambda>(k, g). group_needed tm now g) (own_entries (groups_of lower tm es)))))\<rparr> \<and>
         (\<forall>(k, g)\<in>set (groups_of lower tm es).
            item_expenses lower es k \<noteq> [] \<and>
            plan_item lower es S k g =
              (if S \<in> set (stores_of (item_expenses lower es k))
               then if stores_of (item_expenses lower es k) = [S]
                    then (True, planned g Exclusive (avg_price (item_expenses lower es k) S) None None)
                    else if first_cheapest (item_expenses lower es k) = S
                    then (True, planned g BestPrice (avg_price (item_expenses lower es k) S) None None)
                    else (False, planned g Needed (avg_price (item_expenses lower es k) S)
                                   (Some (first_cheapest (item_expenses lower es k)))
                                   (Some (fsub (avg_price (item_expenses lower es k) S)
                                               (min_avg (item_expenses lower es k)))))
               else (False, planned g Needed (Fin 0)
                              (Some (first_cheapest (item_expenses lower es k))) None)) \<and>
            ((\<exists>s\<in>set (stores_of (item_expenses lower es k)).
                 dlt (avg_price (item_expenses lower es k) s) PosInf) \<longrightarrow>
               first_cheapest (item_expenses lower es k) \<in> set (stores_of (item_expenses lower es k)) \<and>
               lowest (item_expenses lower es k) (first_cheapest (item_expenses lower es k)) \<and>
               min_avg (item_expenses lower es k)
                 = avg_price (item_expenses lower es k) (first_cheapest (item_expenses lower es k))))"
proof (intro conjI ballI)
  show "group_items lower tm es = Inr (groups_of lower tm es)"
    using assms(3) by (simp add: group_items_result)
  show "map fst (groups_of lower tm es) = firsts (map (normName lower) es)"
    by (rule group_keys)
  show "plan lower tm now es S = Inr
           \<lparr>smartBuys = map snd (filter fst (map (\<lambda>(k, g). plan_item lower es S k g)
                (filter (\<lambda>(k, g). group_needed tm now g) (own_entries (groups_of lower tm es))))),
            otherNeeds = map snd (filter (\<lambda>r. \<not> fst r) (map (\<lambda>(k, g). plan_item lower es S k g)
                (filter (\<lambda>(k, g). group_needed tm now g) (own_entries (groups_of lower tm es)))))\<rparr>"
    using assms(1,3) by (rule plan_spec)
  fix x assume x: "x \<in> set (groups_of lower tm es)"
  obtain k g where kg: "x = (k, g)" by (cases x)
  from group_member[of k g lower tm es] x kg
  obtain e where "e \<in> set es" "normName lower e = k" by blast
  then have ne: "item_expenses lower es k \<noteq> []"
    by (auto simp: item_expenses_def filter_empty_conv)
  show "case x of (k, g) \<Rightarrow>
            item_expenses lower es k \<noteq> [] \<and>
            plan_item lower es S k g =
              (if S \<in> set (stores_of (item_expenses lower es k))
               then if stores_of (item_expenses lower es k) = [S]
                    then (True, planned g Exclusive (avg_price (item_expenses lower es k) S) None None)
                    else if first_cheapest (item_expenses lower es k) = S
                    then (True, planned g BestPrice (avg_price (item_expenses lower es k) S) None None)
                    else (False, planned g Needed (avg_price (item_expenses lower es k) S)
                                   (Some (first_cheapest (item_expenses lower es k)))
                                   (Some (fsub (avg_price (item_expenses lower es k) S)
                                               (min_avg (item_expenses lower es k)))))
               else (False, planned g Needed (Fin 0)
                              (Some (first_cheapest (item_expenses lower es k))) None)) \<and>
            ((\<exists>s\<in>set (stores_of (item_expenses lower es k)).
                 dlt (avg_price (item_expenses lower es k) s) PosInf) \<longrightarrow>
               first_cheapest (item_expenses lower es k) \<in> set (stores_of (item_expenses lower es k)) \<and>
               lowest (item_expenses lower es k) (first_cheapest (item_expenses lower es k)) \<and>
               min_avg (item_expenses lower es k)
                 = avg_price (item_expenses lower es k) (first_cheapest (item_expenses lower es k)))"
    unfolding kg prod.case
    using ne plan_item_spec[OF refl assms(4,2), of lower k g]
      first_cheapest_props[of "item_expenses lower es k"]
    by (intro conjI impI) blast+
qed

lemma item_expenses_run_index:
  "item_expenses lowerASCII
     [mk_Expense ''Milk'' (Fin 2) ''2024-01-01'' ''Dairy & Eggs'' ''2'' ''Me'' ''Me'',
      mk_Expense ''Milk'' (Fin 2) ''2024-01-02'' ''Dairy & Eggs'' ''1'' ''Me'' ''Me''] ''milk''
   = [mk_Expense ''Milk'' (Fin 2) ''2024-01-01'' ''Dairy & Eggs'' ''2'' ''Me'' ''Me'',
      mk_Expense ''Milk'' (Fin 2) ''2024-01-02'' ''Dairy & Eggs'' ''1'' ''Me'' ''Me'']"
  by (simp add: item_expenses_def normName_runs)

lemma spec_run_index:
  "stores_of [mk_Expense ''Milk'' (Fin 2) ''2024-01-01'' ''Dairy & Eggs'' ''2'' ''Me'' ''Me'',
              mk_Expense ''Milk'' (Fin 2) ''2024-01-02'' ''Dairy & Eggs'' ''1'' ''Me'' ''Me''] = [''1'', ''2'']"
  "avg_price [mk_Expense ''Milk'' (Fin 2) ''2024-01-01'' ''Dairy & Eggs'' ''2'' ''Me'' ''Me'',
              mk_Expense ''Milk'' (Fin 2) ''2024-01-02'' ''Dairy & Eggs'' ''1'' ''Me'' ''Me''] ''1'' = Fin 2"
  "avg_price [mk_Expense ''Milk'' (Fin 2) ''2024-01-01'' ''Dairy & Eggs'' ''2'' ''Me'' ''Me'',
              mk_Expense ''Milk'' (Fin 2) ''2024-01-02'' ''Dairy & Eggs'' ''1'' ''Me'' ''Me''] ''2'' = Fin 2"
  by (simp_all add: stores_of_def firsts_def enum_order_def index_runs avg_price_def fsum_def
        store_key_def mk_Expense_def rnd_numeral)

lemma first_cheapest_run_index:
  "first_cheapest [mk_Expense ''Milk'' (Fin 2) ''2024-01-01'' ''Dairy & Eggs'' ''2'' ''Me'' ''Me'',
              mk_Expense ''Milk'' (Fin 2) ''2024-01-02'' ''Dairy & Eggs'' ''1'' ''Me'' ''Me''] = ''1''"
  "min_avg [mk_Expense ''Milk'' (Fin 2) ''2024-01-01'' ''Dairy & Eggs'' ''2'' ''Me'' ''Me'',
              mk_Expense ''Milk'' (Fin 2) ''2024-01-02'' ''Dairy & Eggs'' ''1'' ''Me'' ''Me''] = Fin 2"
  by (simp_all add: first_cheapest_def min_avg_def lowest_def spec_run_index)

theorem plan_contract_witness:
  "plan lowerASCII isoTime (isoTime ''2024-03-01'')
     [mk_Expense ''Milk'' (Fin 2) ''2024-01-01'' ''Dairy & Eggs'' ''2'' ''Me'' ''Me'',
      mk_Expense ''Milk'' (Fin 2) ''2024-01-02'' ''Dairy & Eggs'' ''1'' ''Me'' ''Me''] ''2''
   = Inr \<lparr>smartBuys = [],
      otherNeeds = [\<lparr>name_p = ''Milk'', category_p = ''Dairy & Eggs'', reason_p = Needed,
                     avgPriceHere = Fin 2, cheapestStore = Some ''1'', savings = Some (Fin 0),
                     isNeeded = True\<rparr>]\<rparr>"
proof -
  let ?es = "[mk_Expense ''Milk'' (Fin 2) ''2024-01-01'' ''Dairy & Eggs'' ''2'' ''Me'' ''Me'',
      mk_Expense ''Milk'' (Fin 2) ''2024-01-02'' ''Dairy & Eggs'' ''1'' ''Me'' ''Me'']"
  let ?g = "\<lparr>dates = [''2024-01-01'', ''2024-01-02''], category_g = ''Dairy & Eggs'', name_g = ''Milk''\<rparr>"
  have h1: "''2'' \<noteq> []" by simp
  have h2: "''2'' \<notin> set inherited_names" by (rule inherited_runs)
  have h3: "plain_names lowerASCII ?es" by (rule plain_milk)
  have h4: "plain_stores ?es"
    by (simp add: plain_stores_def store_key_def mk_Expense_def inherited_runs)
  note c = plan_contract[OF h1 h2 h3 h4, of isoTime "isoTime ''2024-03-01''"]
  have gs: "groups_of lowerASCII isoTime ?es = [(''milk'', ?g)]" by (rule groups_of_runs)
  from c have "\<forall>(k, g)\<in>set (groups_of lowerASCII isoTime ?es).
       plan_item lowerASCII ?es ''2'' k g =
              (if ''2'' \<in> set (stores_of (item_expenses lowerASCII ?es k))
               then if stores_of (item_expenses lowerASCII ?es k) = [''2'']
                    then (True, planned g Exclusive (avg_price (item_expenses lowerASCII ?es k) ''2'') None None)
                    else if first_cheapest (item_expenses lowerASCII ?es k) = ''2''
                    then (True, planned g BestPrice (avg_price (item_expenses lowerASCII ?es k) ''2'') None None)
                    else (False, planned g Needed (avg_price (item_expenses lowerASCII ?es k) ''2'')
                                   (Some (first_cheapest (item_expenses lowerASCII ?es k)))
                                   (Some (fsub (avg_price (item_expenses lowerASCII ?es k) ''2'')
                                               (min_avg (item_expenses lowerASCII ?es k)))))
               else (False, planned g Needed (Fin 0)
                              (Some (first_cheapest (item_expenses lowerASCII ?es k))) None))"
    by blast
  then have pi: "plan_item lowerASCII ?es ''2'' ''milk'' ?g
      = (False, planned ?g Needed (Fin 2) (Some ''1'') (Some (Fin 0)))"
    unfolding gs
    by (simp add: item_expenses_run_index spec_run_index first_cheapest_run_index fsub_def rnd_simple)
  from c have "plan lowerASCII isoTime (isoTime ''2024-03-01'') ?es ''2'' = Inr
           \<lparr>smartBuys = map snd (filter fst (map (\<lambda>(k, g). plan_item lowerASCII ?es ''2'' k g)
                (filter (\<lambda>(k, g). group_needed isoTime (isoTime ''2024-03-01'') g)
                   (own_entries (groups_of lowerASCII isoTime ?es))))),
            otherNeeds = map snd (filter (\<lambda>r. \<not> fst r) (map (\<lambda>(k, g). plan_item lowerASCII ?es ''2'' k g)
                (filter (\<lambda>(k, g). group_needed isoTime (isoTime ''2024-03-01'') g)
                   (own_entries (groups_of lowerASCII isoTime ?es)))))\<rparr>"
    by blast
  then show ?thesis
    unfolding gs own_entries_one
    by (simp add: group_needed_run_stores pi planned_def)
qed


section \<open>Proofs: saving a reviewed bill\<close>

lemma foldl_fsum:
  "foldl (\<lambda>sum item. fadd sum (amount item)) z pending = foldl fadd z (map amount pending)"
  by (induction pending arbitrary: z) simp_all

lemma final_save:
  "map amount (handleFinalSave pending gd bt pyr)
     = map (\<lambda>item. toFixed2 (finalAmount_of (discountVal_of gd) (fsum (map amount pending)) item)) pending"
  "map originalAmount (handleFinalSave pending gd bt pyr) = map (\<lambda>item. Some (amount item)) pending"
  by (simp_all add: handleFinalSave_def Let_def foldl_fsum fsum_def o_def)

lemma round_half_even_nonneg: "0 \<le> y \<Longrightarrow> 0 \<le> round_half_even y"
proof -
  assume "0 \<le> y"
  then have "0 \<le> \<lfloor>y\<rfloor>" by simp
  then show ?thesis by (simp add: round_half_even_def Let_def)
qed

lemma rnd_nonneg: "0 \<le> x \<Longrightarrow> \<not> dlt (rnd x) (Fin 0)"
proof -
  assume x: "0 \<le> x"
  define e where "e = max (ilog2 \<bar>x\<bar>) (- 1022)"
  define u where "u = pow2 (e - 52)"
  have u: "0 < u" unfolding u_def by (rule pow2_pos)
  have "0 \<le> \<bar>x\<bar> / u" using u by simp
  then have "0 \<le> round_half_even (\<bar>x\<bar> / u)" by (rule round_half_even_nonneg)
  then have "(0::rat) \<le> of_int (round_half_even (\<bar>x\<bar> / u)) * u" using u by simp
  then show ?thesis
    using x unfolding rnd_def Let_def e_def[symmetric] u_def[symmetric]
    by (simp add: sgn_if)
qed

lemma toFixed2_nonneg: "\<not> dlt (toFixed2 (fmax0 z)) (Fin 0)"
proof (cases z)
  case (Fin r)
  have "(0::rat) \<le> sgn (max 0 r) * of_int \<lfloor>\<bar>max 0 r\<bar> * 100 + 1 / 2\<rfloor> / 100"
    by (simp add: sgn_if max_def)
  then have 1: "\<not> dlt (rnd (sgn (max 0 r) * of_int \<lfloor>\<bar>max 0 r\<bar> * 100 + 1 / 2\<rfloor> / 100)) (Fin 0)"
    by (rule rnd_nonneg)
  have 2: "\<not> dlt (Fin (max 0 r)) (Fin 0)" by simp
  have t: "toFixed2 (fmax0 z) = (if \<bar>max 0 r\<bar> \<ge> 10 ^ 21 then Fin (max 0 r)
          else rnd (sgn (max 0 r) * of_int \<lfloor>\<bar>max 0 r\<bar> * 100 + 1 / 2\<rfloor> / 100))"
    unfolding Fin by (simp only: fmax0.simps toFixed2.simps)
  show ?thesis
  proof (cases "\<bar>max 0 r\<bar> \<ge> 10 ^ 21")
    case True
    then have "toFixed2 (fmax0 z) = Fin (max 0 r)" unfolding t by (simp only: if_True)
    then show ?thesis using 2 by simp
  next
    case False
    then have "toFixed2 (fmax0 z) = rnd (sgn (max 0 r) * of_int \<lfloor>\<bar>max 0 r\<bar> * 100 + 1 / 2\<rfloor> / 100)"
      unfolding t by (simp only: if_False)
    then show ?thesis using 1 by simp
  qed
qed (simp_all add: rnd_simple)

lemma round_half_even_close: "\<bar>of_int (round_half_even y) - y\<bar> \<le> 1 / 2"
proof -
  define d where "d = y - of_int \<lfloor>y\<rfloor>"
  have d: "0 \<le> d" "d < 1" unfolding d_def by linarith+
  have y: "y = of_int \<lfloor>y\<rfloor> + d" by (simp add: d_def)
  have r: "round_half_even y = (if d < 1 / 2 then \<lfloor>y\<rfloor> else if d > 1 / 2 then \<lfloor>y\<rfloor> + 1
                                else if even \<lfloor>y\<rfloor> then \<lfloor>y\<rfloor> else \<lfloor>y\<rfloor> + 1)"
    by (simp add: round_half_even_def Let_def d_def)
  have "\<bar>of_int (round_half_even y) - (of_int \<lfloor>y\<rfloor> + d)\<bar> \<le> 1 / 2"
    unfolding r using d by (simp add: abs_if)
  then show ?thesis using y by simp
qed

lemma rnd_close:
  assumes "pow2 e \<le> \<bar>x\<bar>" "\<bar>x\<bar> < pow2 (e + 1)" "- 1022 \<le> e" "e \<le> 1022"
  shows "\<exists>y. rnd x = Fin (sgn x * y) \<and> \<bar>y - \<bar>x\<bar>\<bar> \<le> pow2 (e - 52) / 2"
proof -
  define u where "u = pow2 (e - 52)"
  define m where "m = round_half_even (\<bar>x\<bar> / u)"
  have u: "0 < u" unfolding u_def by (rule pow2_pos)
  have r: "rnd x = Fin (sgn x * (of_int m * u))"
    unfolding m_def u_def using assms by (rule rnd_eval)
  have "\<bar>of_int m - \<bar>x\<bar> / u\<bar> \<le> 1 / 2" unfolding m_def by (rule round_half_even_close)
  then have "\<bar>of_int m - \<bar>x\<bar> / u\<bar> * u \<le> 1 / 2 * u" using u by (simp only: mult_le_cancel_right_pos)
  moreover have "\<bar>of_int m - \<bar>x\<bar> / u\<bar> * u = \<bar>of_int m * u - \<bar>x\<bar>\<bar>"
  proof -
    have "\<bar>of_int m - \<bar>x\<bar> / u\<bar> * u = \<bar>(of_int m - \<bar>x\<bar> / u) * u\<bar>" using u by (simp add: abs_mult)
    also have "(of_int m - \<bar>x\<bar> / u) * u = of_int m * u - \<bar>x\<bar>" using u by (simp add: field_simps)
    finally show ?thesis .
  qed
  ultimately have "\<bar>of_int m * u - \<bar>x\<bar>\<bar> \<le> u / 2" by simp
  then show ?thesis using r unfolding u_def by blast
qed

text \<open>An amount with two decimals (the binary64 value nearest to \<open>n / 100\<close>) is saved
  as it is.\<close>

lemma toFixed2_two_decimals:
  assumes "\<bar>n\<bar> < 2 ^ 52"
  shows "toFixed2 (rnd (of_int n / 100)) = rnd (of_int n / 100)"
proof (cases "n = 0")
  case True
  then show ?thesis by (simp add: rnd_def)
next
  case False
  define x :: rat where "x = of_int n / 100"
  define a where "a = \<bar>x\<bar>"
  have a_eq: "a = of_int \<bar>n\<bar> / 100" by (simp add: a_def x_def)
  have "1 \<le> \<bar>n\<bar>" using False by simp
  then have "(of_int 1 :: rat) \<le> of_int \<bar>n\<bar>" by (simp only: of_int_le_iff)
  then have alo: "1 / 100 \<le> a" by (simp add: a_eq)
  have "(of_int \<bar>n\<bar> :: rat) < of_int (2 ^ 52)" using assms by (simp only: of_int_less_iff)
  then have ahi: "a < 2 ^ 46" by (simp add: a_eq)
  have apos: "0 < a" using alo by simp
  define e where "e = ilog2 a"
  have b: "pow2 e \<le> a" "a < pow2 (e + 1)" using ilog2_bounds[OF apos] by (simp_all add: e_def)
  have "pow2 e < pow2 46" using b(1) ahi by (simp add: pow2_def)
  then have ehi: "e < 46" by (simp only: pow2_less_iff)
  have "pow2 (- 7) < pow2 (e + 1)" using b(2) alo by (simp add: pow2_def)
  then have elo: "- 7 < e + 1" by (simp only: pow2_less_iff)
  from rnd_close[of e x] b elo ehi obtain y
    where y: "rnd x = Fin (sgn x * y)" "\<bar>y - a\<bar> \<le> pow2 (e - 52) / 2"
    by (auto simp: a_def)
  have "pow2 (e - 52) \<le> pow2 (- 7)" using ehi by (intro pow2_mono) simp
  then have close: "\<bar>y - a\<bar> \<le> 1 / 256" using y(2) by (simp add: pow2_def)
  have ypos: "0 < y" using close alo by linarith
  have x0: "x \<noteq> 0" using False by (simp add: x_def)
  have ay: "\<bar>sgn x * y\<bar> = y" using ypos x0 by (simp add: abs_mult abs_sgn_eq)
  have sy: "sgn (sgn x * y) = sgn x" using ypos by (simp add: sgn_mult)
  have "y \<le> a + 1 / 256" using close by linarith
  then have "y < 2 ^ 46 + 1" using ahi by linarith
  also have "(2 ^ 46 + 1 :: rat) < 10 ^ 21" by simp
  finally have small: "\<not> y \<ge> 10 ^ 21" by simp
  have an: "of_int \<bar>n\<bar> = a * 100" by (simp add: a_eq)
  have "of_int \<bar>n\<bar> \<le> y * 100 + 1 / 2" "y * 100 + 1 / 2 < of_int \<bar>n\<bar> + 1"
    unfolding an using close by linarith+
  then have fl: "\<lfloor>y * 100 + 1 / 2\<rfloor> = \<bar>n\<bar>" by (intro floor_unique)
  have sx: "sgn x * of_int \<bar>n\<bar> / 100 = x"
  proof -
    have "sgn x * \<bar>x\<bar> = x" by (simp add: sgn_if)
    then show ?thesis by (simp add: a_eq[unfolded a_def])
  qed
  have "toFixed2 (rnd x) = rnd (sgn x * of_int \<bar>n\<bar> / 100)"
    unfolding y(1) using small by (simp only: toFixed2.simps ay sy fl if_False)
  then show ?thesis unfolding sx by (simp add: x_def)
qed


lemma floor_frac: "\<lfloor>(of_int a / of_int b :: rat)\<rfloor> = a div b"
  by (simp only: floor_divide_of_int_eq)

lemma dyadic_runs:
  "rnd (1 / 8) = Fin (1 / 8)" "rnd (7 / 8) = Fin (7 / 8)" "rnd (49 / 8) = Fin (49 / 8)"
  "rnd (197 / 2) = Fin (197 / 2)"
  "rnd (5764607523034235 / 1152921504606846976) = Fin (5764607523034235 / 1152921504606846976)"
  "rnd (4458563631096791 / 9007199254740992) = Fin (4458563631096791 / 9007199254740992)"
  using rnd_dyadic[of 1 3] rnd_dyadic[of 7 3] rnd_dyadic[of 49 3] rnd_dyadic[of 197 1]
    rnd_dyadic[of 5764607523034235 60] rnd_dyadic[of 4458563631096791 53]
  by simp_all

lemma inexact_runs:
  "rnd (22 / 25) = Fin (7926335344172073 / 9007199254740992)"
  "rnd (13 / 100) = Fin (1170935903116329 / 9007199254740992)"
  "rnd (1 / 100) = Fin (5764607523034235 / 576460752303423488)"
  "rnd (99 / 100) = Fin (4458563631096791 / 4503599627370496)"
  "rnd (1147156897083812741 / 1152921504606846976) = Fin (8962163258467287 / 9007199254740992)"
  "rnd (887254162588261417 / 9007199254740992) = Fin (866459143152599 / 8796093022208)"
proof -
  show "rnd (22 / 25) = Fin (7926335344172073 / 9007199254740992)"
    using rnd_eval[of "- 1" "22 / 25"] round_half_even_frac[of 100 "88 * 2 ^ 53"]
    by (simp add: pow2_def)
  show "rnd (13 / 100) = Fin (1170935903116329 / 9007199254740992)"
    using rnd_eval[of "- 3" "13 / 100"] round_half_even_frac[of 100 "13 * 2 ^ 55"]
    by (simp add: pow2_def)
  show "rnd (1 / 100) = Fin (5764607523034235 / 576460752303423488)"
    using rnd_eval[of "- 7" "1 / 100"] round_half_even_frac[of 100 "2 ^ 59"]
    by (simp add: pow2_def)
  show "rnd (99 / 100) = Fin (4458563631096791 / 4503599627370496)"
    using rnd_eval[of "- 1" "99 / 100"] round_half_even_frac[of 100 "99 * 2 ^ 53"]
    by (simp add: pow2_def)
  show "rnd (1147156897083812741 / 1152921504606846976) = Fin (8962163258467287 / 9007199254740992)"
    using rnd_eval[of "- 1" "1147156897083812741 / 1152921504606846976"]
      round_half_even_frac[of 128 1147156897083812741]
    by (simp add: pow2_def)
  show "rnd (887254162588261417 / 9007199254740992) = Fin (866459143152599 / 8796093022208)"
    using rnd_eval[of 6 "887254162588261417 / 9007199254740992"]
      round_half_even_frac[of 128 887254162588261417]
    by (simp add: pow2_def)
qed

lemma mk_pending_fields:
  "amount (mk_pending d a dt c s ow) = a"
  by (simp add: mk_pending_def)

lemma toFixed2_runs:
  "toFixed2 (Fin (7 / 8)) = rnd (22 / 25)"
  "toFixed2 (Fin (49 / 8)) = rnd (613 / 100)"
  "toFixed2 (Fin (1 / 8)) = rnd (13 / 100)"
  "toFixed2 (Fin (8962163258467287 / 9007199254740992)) = rnd (99 / 100)"
  "toFixed2 (Fin (866459143152599 / 8796093022208)) = rnd (197 / 2)"
proof -
  show "toFixed2 (Fin (7 / 8)) = rnd (22 / 25)" "toFixed2 (Fin (49 / 8)) = rnd (613 / 100)"
    "toFixed2 (Fin (1 / 8)) = rnd (13 / 100)"
    by simp_all
  show "toFixed2 (Fin (8962163258467287 / 9007199254740992)) = rnd (99 / 100)"
    using floor_frac[of "2 * 8962163258467287 * 100 + 9007199254740992" "2 * 9007199254740992"]
    by simp
  show "toFixed2 (Fin (866459143152599 / 8796093022208)) = rnd (197 / 2)"
    using floor_frac[of "2 * 866459143152599 * 100 + 8796093022208" "2 * 8796093022208"]
    by simp
qed

lemma save_discount_run:
  "map amount (handleFinalSave
      [mk_pending ''Milk'' (Fin 1) ''2024-01-01'' ''Dairy & Eggs'' ''X'' ''Shared'',
       mk_pending ''Bread'' (Fin 7) ''2024-01-01'' ''Bakery'' ''X'' ''Shared''] (Fin 1) SharedBill ''Me'')
     = [rnd (22 / 25), rnd (613 / 100)]"
  by (simp add: final_save fsum_def mk_pending_fields discountVal_of_def finalAmount_of_def fsub_def
        rnd_simple rnd_numeral dyadic_runs toFixed2_runs Let_def del: toFixed2.simps)

lemma save_plain_run:
  "map amount (handleFinalSave
      [mk_pending ''Milk'' (Fin (1 / 8)) ''2024-01-01'' ''Dairy & Eggs'' ''X'' ''Shared''] NaN SharedBill ''Me'')
     = [rnd (13 / 100)]"
  by (simp add: final_save fsum_def mk_pending_fields discountVal_of_def finalAmount_of_def
        rnd_simple dyadic_runs toFixed2_runs Let_def del: toFixed2.simps)

section \<open>Claims: saving a reviewed bill\<close>

text \<open>
  Claim C7, as stated, fails: the saved amount is rounded to two decimals. Two items of
  1 and 7 with a discount of 1: the subtotal is 8, the share of the first item is one
  eighth, the claim gives \<open>max 0 (1 - 1 * (1 / 8)) = 0.875\<close>, and every step is exact in
  binary64; the form saves 0.88 (and 6.13 for the second item). Without a discount an
  entered amount of 0.125 is saved as 0.13.
\<close>

theorem final_save_counterexample:
  "map amount (handleFinalSave
      [mk_pending ''Milk'' (Fin 1) ''2024-01-01'' ''Dairy & Eggs'' ''X'' ''Shared'',
       mk_pending ''Bread'' (Fin 7) ''2024-01-01'' ''Bakery'' ''X'' ''Shared''] (Fin 1) SharedBill ''Me'')
     = [rnd (88 / 100), rnd (613 / 100)] \<and>
   fsum [Fin 1, Fin 7] = Fin 8 \<and>
   fmax0 (fsub (Fin 1) (fmul (Fin 1) (fdiv (Fin 1) (Fin 8)))) = Fin (7 / 8) \<and>
   rnd (88 / 100) \<noteq> Fin (7 / 8) \<and>
   map amount (handleFinalSave
      [mk_pending ''Milk'' (Fin (1 / 8)) ''2024-01-01'' ''Dairy & Eggs'' ''X'' ''Shared''] NaN SharedBill ''Me'')
     = [rnd (13 / 100)] \<and>
   rnd (13 / 100) \<noteq> Fin (1 / 8)"
proof (intro conjI)
  show "map amount (handleFinalSave
      [mk_pending ''Milk'' (Fin 1) ''2024-01-01'' ''Dairy & Eggs'' ''X'' ''Shared'',
       mk_pending ''Bread'' (Fin 7) ''2024-01-01'' ''Bakery'' ''X'' ''Shared''] (Fin 1) SharedBill ''Me'')
     = [rnd (88 / 100), rnd (613 / 100)]"
    using save_discount_run by simp
  show "fsum [Fin 1, Fin 7] = Fin 8" by (simp add: fsum_def rnd_simple rnd_numeral)
  show "fmax0 (fsub (Fin 1) (fmul (Fin 1) (fdiv (Fin 1) (Fin 8)))) = Fin (7 / 8)"
    by (simp add: fsub_def dyadic_runs)
  show "rnd (88 / 100) \<noteq> Fin (7 / 8)" by (simp add: inexact_runs)
  show "map amount (handleFinalSave
      [mk_pending ''Milk'' (Fin (1 / 8)) ''2024-01-01'' ''Dairy & Eggs'' ''X'' ''Shared''] NaN SharedBill ''Me'')
     = [rnd (13 / 100)]"
    by (rule save_plain_run)
  show "rnd (13 / 100) \<noteq> Fin (1 / 8)" by (simp add: inexact_runs)
qed

text \<open>
  Claim C7, amended. With \<open>T\<close> the sum of the pending amounts, as the form adds them,
  and \<open>D\<close> the discount read from the form: when both are positive, every saved amount
  is \<open>max 0 (amount - D * (amount / T))\<close>, computed in binary64 and then rounded to two
  decimals, and it is never negative; otherwise (\<open>D\<close> is zero or absent, in
  particular) it is the entered amount rounded to two decimals, which is the entered
  amount itself when that is a number with two decimals, below \<open>2 ^ 52\<close> hundredths in
  magnitude. The amount before the discount is kept in \<open>originalAmount\<close>.
\<close>

theorem final_save_amounts:
  assumes "T = fsum (map amount pending)" and "D = discountVal_of globalDiscount"
  shows "(dlt (Fin 0) D \<and> dlt (Fin 0) T \<longrightarrow>
            map amount (handleFinalSave pending globalDiscount bt pyr)
             = map (\<lambda>item. toFixed2 (fmax0 (fsub (amount item) (fmul D (fdiv (amount item) T)))))
                 pending \<and>
            (\<forall>x\<in>set (map amount (handleFinalSave pending globalDiscount bt pyr)). \<not> dlt x (Fin 0))) \<and>
         (\<not> (dlt (Fin 0) D \<and> dlt (Fin 0) T) \<longrightarrow>
            map amount (handleFinalSave pending globalDiscount bt pyr)
             = map (\<lambda>item. toFixed2 (amount item)) pending) \<and>
         (\<not> (dlt (Fin 0) D \<and> dlt (Fin 0) T) \<and>
          (\<forall>item\<in>set pending. \<exists>n::int. \<bar>n\<bar> < 2 ^ 52 \<and> amount item = rnd (of_int n / 100)) \<longrightarrow>
            map amount (handleFinalSave pending globalDiscount bt pyr) = map amount pending) \<and>
         map originalAmount (handleFinalSave pending globalDiscount bt pyr)
             = map (\<lambda>item. Some (amount item)) pending \<and>
         (globalDiscount = NaN \<or> globalDiscount = Fin 0 \<longrightarrow> D = Fin 0)"
proof -
  note fs = final_save[of pending globalDiscount bt pyr]
  have disc: "map amount (handleFinalSave pending globalDiscount bt pyr)
             = map (\<lambda>item. toFixed2 (fmax0 (fsub (amount item) (fmul D (fdiv (amount item) T)))))
                 pending" if "dlt (Fin 0) D \<and> dlt (Fin 0) T"
    using that unfolding fs assms by (simp add: finalAmount_of_def Let_def del: toFixed2.simps)
  have nonneg: "\<forall>x\<in>set (map amount (handleFinalSave pending globalDiscount bt pyr)). \<not> dlt x (Fin 0)"
    if "dlt (Fin 0) D \<and> dlt (Fin 0) T"
    unfolding disc[OF that] using toFixed2_nonneg by auto
  have plain: "map amount (handleFinalSave pending globalDiscount bt pyr)
             = map (\<lambda>item. toFixed2 (amount item)) pending" if "\<not> (dlt (Fin 0) D \<and> dlt (Fin 0) T)"
    using that unfolding fs assms by (auto simp add: finalAmount_of_def simp del: toFixed2.simps)
  have same: "map amount (handleFinalSave pending globalDiscount bt pyr) = map amount pending"
    if nd: "\<not> (dlt (Fin 0) D \<and> dlt (Fin 0) T)"
      and two: "\<forall>item\<in>set pending. \<exists>n::int. \<bar>n\<bar> < 2 ^ 52 \<and> amount item = rnd (of_int n / 100)"
  proof -
    have "map (\<lambda>item. toFixed2 (amount item)) pending = map amount pending"
    proof (rule map_cong[OF refl])
      fix item assume "item \<in> set pending"
      then obtain n :: int where "\<bar>n\<bar> < 2 ^ 52" "amount item = rnd (of_int n / 100)"
        using two by blast
      then show "toFixed2 (amount item) = amount item"
        using toFixed2_two_decimals[of n] by (simp only:)
    qed
    then show ?thesis using plain[OF nd] by (simp only:)
  qed
  have orig: "map originalAmount (handleFinalSave pending globalDiscount bt pyr)
             = map (\<lambda>item. Some (amount item)) pending"
    by (rule fs(2))
  have zero: "globalDiscount = NaN \<or> globalDiscount = Fin 0 \<longrightarrow> D = Fin 0"
    by (auto simp: assms discountVal_of_def)
  show ?thesis using disc nonneg plain same orig zero by blast
qed

theorem final_save_amounts_witness:
  "map amount (handleFinalSave
      [mk_pending ''Milk'' (Fin 1) ''2024-01-01'' ''Dairy & Eggs'' ''X'' ''Shared'',
       mk_pending ''Wine'' (Fin 99) ''2024-01-01'' ''Alcohol'' ''X'' ''Shared''] (Fin (1 / 2)) SharedBill ''Me'')
     = [rnd (99 / 100), rnd (9850 / 100)] \<and>
   map amount (handleFinalSave
      [mk_pending ''Milk'' (rnd (1999 / 100)) ''2024-01-01'' ''Dairy & Eggs'' ''X'' ''Shared''] NaN SharedBill ''Me'')
     = [rnd (1999 / 100)]"
proof -
  let ?ps = "[mk_pending ''Milk'' (Fin 1) ''2024-01-01'' ''Dairy & Eggs'' ''X'' ''Shared'',
       mk_pending ''Wine'' (Fin 99) ''2024-01-01'' ''Alcohol'' ''X'' ''Shared'']"
  let ?one = "[mk_pending ''Milk'' (rnd (1999 / 100)) ''2024-01-01'' ''Dairy & Eggs'' ''X'' ''Shared'']"
  have T: "Fin 100 = fsum (map amount ?ps)"
    by (simp add: fsum_def mk_pending_fields rnd_simple rnd_numeral)
  have D: "Fin (1 / 2) = discountVal_of (Fin (1 / 2))" by (simp add: discountVal_of_def)
  from final_save_amounts[OF T D, of SharedBill "''Me''"]
  have "map amount (handleFinalSave ?ps (Fin (1 / 2)) SharedBill ''Me'')
      = map (\<lambda>item. toFixed2 (fmax0 (fsub (amount item) (fmul (Fin (1 / 2)) (fdiv (amount item) (Fin 100))))))
          ?ps"
    by simp
  then have 1: "map amount (handleFinalSave ?ps (Fin (1 / 2)) SharedBill ''Me'')
      = [rnd (99 / 100), rnd (9850 / 100)]"
    by (simp add: mk_pending_fields fsub_def inexact_runs dyadic_runs toFixed2_runs del: toFixed2.simps)
  have D0: "Fin 0 = discountVal_of NaN" by (simp add: discountVal_of_def)
  have two: "\<forall>item\<in>set ?one. \<exists>n::int. \<bar>n\<bar> < 2 ^ 52 \<and> amount item = rnd (of_int n / 100)"
  proof -
    have "\<exists>n::int. \<bar>n\<bar> < 2 ^ 52 \<and> rnd (1999 / 100) = rnd (of_int n / 100)"
      by (rule exI[of _ 1999]) simp
    then show ?thesis by (simp add: mk_pending_fields)
  qed
  have nd: "\<not> (dlt (Fin 0) (Fin 0) \<and> dlt (Fin 0) (fsum (map amount ?one)))" by simp
  from final_save_amounts[OF refl D0, of ?one SharedBill "''Me''"] nd two
  have "map amount (handleFinalSave ?one NaN SharedBill ''Me'') = map amount ?one"
    by blast
  then have 2: "map amount (handleFinalSave ?one NaN SharedBill ''Me'') = [rnd (1999 / 100)]"
    by (simp add: mk_pending_fields)
  show ?thesis using 1 2 by (intro conjI)
qed


section \<open>Claims: payment conservation\<close>

lemma stats_obj_run:
  "stats_obj [mk_expense ''Milk'' 10 ''2023-10-26'' ''Dairy & Eggs'' ''X'' ''constructor'' ''Me''] [''Me'']
     = Inr [(''Me'', \<lparr>paid = Some 0, consumed = Some 10, net = Some (- 10)\<rparr>)]"
proof -
  let ?e = "mk_expense ''Milk'' 10 ''2023-10-26'' ''Dairy & Eggs'' ''X'' ''constructor'' ''Me''"
  let ?t = "\<lparr>own = [(''Me'', zero_entry)], proto = None\<rparr>"
  have i: "init_table [''Me''] = ?t" by (simp add: init_table_def)
  have h: "holds ?t ''constructor''" "holds ?t ''Me''"
    by (simp_all add: holds_def inherited_number_def inherited_runs)
  have p: "add_paid_obj ''constructor'' (Some 10) ?t = Inr ?t"
    by (simp add: add_paid_obj_def update_obj_def inherited_number_def)
  have c: "add_consumed_obj ''Me'' (Some 10) ?t
      = Inr \<lparr>own = [(''Me'', \<lparr>paid = Some 0, consumed = Some 10\<rparr>)], proto = None\<rparr>"
    by (simp add: add_consumed_obj_def update_obj_def zero_entry_def)
  have s: "step_obj [''Me''] ?t ?e
      = Inr \<lparr>own = [(''Me'', \<lparr>paid = Some 0, consumed = Some 10\<rparr>)], proto = None\<rparr>"
    by (simp add: step_obj_def mk_expense_def ensure_obj_def h p c)
  show ?thesis
    by (simp add: stats_obj_def i s own_entries_one with_net_def)
qed

text \<open>
  Where the table is not given a new prototype and no payer or owner outside the
  participant list has an inherited name, the object does what the dictionary of the
  section on the settlement engine does, and lists the entries in the order of
  \<^verbatim>\<open>Object.keys\<close>.
\<close>

lemma init_table_gen:
  "''__proto__'' \<notin> set ps \<Longrightarrow>
   foldl (\<lambda>t p. if p = ''__proto__'' then t\<lparr>proto := Some zero_entry\<rparr>
                  else t\<lparr>own := AList.update p zero_entry (own t)\<rparr>) t ps
     = t\<lparr>own := foldl (\<lambda>d p. AList.update p zero_entry d) (own t) ps\<rparr>"
  by (induction ps arbitrary: t) auto

lemma init_table_plain:
  "''__proto__'' \<notin> set P \<Longrightarrow> init_table P = \<lparr>own = init_data P, proto = None\<rparr>"
  by (simp add: init_table_def init_data_def init_table_gen)

lemma proto_inherited: "''__proto__'' \<in> set inherited_names"
  by (simp add: inherited_names_def)

lemma holds_plain:
  "holds \<lparr>own = d, proto = None\<rparr> k = (map_of d k \<noteq> None \<or> k \<in> set inherited_names)"
  using proto_inherited by (auto simp: holds_def inherited_number_def)

lemma ensure_obj_plain:
  "map_of d k \<noteq> None \<or> k \<notin> set inherited_names \<Longrightarrow>
   ensure_obj k \<lparr>own = d, proto = None\<rparr> = \<lparr>own = ensure k d, proto = None\<rparr>"
  by (auto simp: ensure_obj_def ensure_def holds_plain)

lemma update_obj_own:
  "map_of d k \<noteq> None \<Longrightarrow>
   update_obj k f \<lparr>own = d, proto = None\<rparr> = Inr \<lparr>own = AList.map_entry k f d, proto = None\<rparr>"
  by (simp add: update_obj_def)

lemma share_out_obj_plain:
  "\<forall>p\<in>set ps. map_of d p \<noteq> None \<Longrightarrow>
   share_out_obj s ps \<lparr>own = d, proto = None\<rparr> = Inr \<lparr>own = share_out s ps d, proto = None\<rparr>"
  unfolding share_out_obj_def share_out_def
proof (induction ps arbitrary: d)
  case Nil
  then show ?case by simp
next
  case (Cons p ps)
  have p: "map_of d p \<noteq> None" using Cons.prems by simp
  have 1: "add_consumed_obj p s \<lparr>own = d, proto = None\<rparr>
      = Inr \<lparr>own = add_consumed p s d, proto = None\<rparr>"
    using p by (simp add: add_consumed_obj_def add_consumed_def update_obj_own)
  have 2: "\<forall>q\<in>set ps. map_of (add_consumed p s d) q \<noteq> None"
    using Cons.prems by (auto simp: map_of_add_consumed)
  show ?case using p 1 Cons.IH[OF 2] by (simp add: holds_plain)
qed

lemma share_out_keeps:
  "map_of d n \<noteq> None \<Longrightarrow> map_of (share_out s ps d) n \<noteq> None"
  unfolding share_out_def
proof (induction ps arbitrary: d)
  case Nil
  then show ?case by simp
next
  case (Cons q ps)
  have "map_of (if map_of d q \<noteq> None then add_consumed q s d else d) n \<noteq> None"
    using Cons.prems by (auto simp: map_of_add_consumed)
  from Cons.IH[OF this] show ?case by simp
qed

lemma step_keeps:
  assumes "map_of d n \<noteq> None"
  shows "map_of (step P d e) n \<noteq> None"
proof -
  have 1: "map_of (add_paid (payer e) (Some (amount e)) (ensure (payer e) d)) n \<noteq> None"
    using assms by (auto simp: map_of_add_paid map_of_ensure)
  show ?thesis
  proof (cases "owner e = ''Shared''")
    case True
    then show ?thesis using share_out_keeps[OF 1] by (simp add: step_def Let_def)
  next
    case False
    then show ?thesis using 1
      by (auto simp: step_def Let_def map_of_add_consumed map_of_ensure)
  qed
qed

lemma step_obj_plain:
  assumes inv: "\<forall>p\<in>set P. map_of d p \<noteq> None"
    and py: "payer e \<in> set P \<or> payer e \<notin> set inherited_names"
    and ow: "owner e = ''Shared'' \<or> owner e \<in> set P \<or> owner e \<notin> set inherited_names"
  shows "step_obj P \<lparr>own = d, proto = None\<rparr> e = Inr \<lparr>own = step P d e, proto = None\<rparr>"
proof -
  let ?d0 = "ensure (payer e) d"
  let ?d1 = "add_paid (payer e) (Some (amount e)) ?d0"
  have "map_of d (payer e) \<noteq> None \<or> payer e \<notin> set inherited_names" using inv py by blast
  then have e1: "ensure_obj (payer e) \<lparr>own = d, proto = None\<rparr> = \<lparr>own = ?d0, proto = None\<rparr>"
    by (rule ensure_obj_plain)
  have "map_of ?d0 (payer e) \<noteq> None" by (simp add: map_of_ensure)
  then have p1: "add_paid_obj (payer e) (Some (amount e)) \<lparr>own = ?d0, proto = None\<rparr>
      = Inr \<lparr>own = ?d1, proto = None\<rparr>"
    by (simp add: add_paid_obj_def add_paid_def update_obj_own)
  have inv1: "\<forall>p\<in>set P. map_of ?d1 p \<noteq> None"
    using inv by (auto simp: map_of_add_paid map_of_ensure)
  show ?thesis
  proof (cases "owner e = ''Shared''")
    case True
    then show ?thesis
      using share_out_obj_plain[OF inv1] by (simp add: step_obj_def step_def e1 p1 Let_def)
  next
    case False
    let ?d2 = "ensure (owner e) ?d1"
    have "map_of ?d1 (owner e) \<noteq> None \<or> owner e \<notin> set inherited_names"
      using inv1 ow False by blast
    then have e2: "ensure_obj (owner e) \<lparr>own = ?d1, proto = None\<rparr> = \<lparr>own = ?d2, proto = None\<rparr>"
      by (rule ensure_obj_plain)
    have "map_of ?d2 (owner e) \<noteq> None" by (simp add: map_of_ensure)
    then have c2: "add_consumed_obj (owner e) (Some (amount e)) \<lparr>own = ?d2, proto = None\<rparr>
        = Inr \<lparr>own = add_consumed (owner e) (Some (amount e)) ?d2, proto = None\<rparr>"
      by (simp add: add_consumed_obj_def add_consumed_def update_obj_own)
    show ?thesis using False by (simp add: step_obj_def step_def e1 p1 e2 c2 Let_def)
  qed
qed

lemma fold_step_obj_plain:
  assumes "\<forall>e\<in>set es. payer e \<in> set P \<or> payer e \<notin> set inherited_names"
    and "\<forall>e\<in>set es. owner e = ''Shared'' \<or> owner e \<in> set P \<or> owner e \<notin> set inherited_names"
  shows "fold_err (step_obj P) \<lparr>own = init_data P, proto = None\<rparr> es
           = Inr \<lparr>own = foldl (step P) (init_data P) es, proto = None\<rparr> \<and>
         (\<forall>p\<in>set P. map_of (foldl (step P) (init_data P) es) p \<noteq> None)"
  using assms
proof (induction es rule: rev_induct)
  case Nil
  then show ?case by (simp add: map_of_init_data)
next
  case (snoc e es)
  then have ih: "fold_err (step_obj P) \<lparr>own = init_data P, proto = None\<rparr> es
           = Inr \<lparr>own = foldl (step P) (init_data P) es, proto = None\<rparr>"
    and inv: "\<forall>p\<in>set P. map_of (foldl (step P) (init_data P) es) p \<noteq> None"
    by simp_all
  have py: "payer e \<in> set P \<or> payer e \<notin> set inherited_names" using snoc.prems(1) by simp
  have ow: "owner e = ''Shared'' \<or> owner e \<in> set P \<or> owner e \<notin> set inherited_names"
    using snoc.prems(2) by simp
  show ?case
    using step_obj_plain[OF inv py ow] inv step_keeps[of "foldl (step P) (init_data P) es" _ P e]
    by (simp add: fold_err_snoc ih)
qed

lemma stats_obj_plain:
  assumes "''__proto__'' \<notin> set P"
    and "\<forall>e\<in>set es. payer e \<in> set P \<or> payer e \<notin> set inherited_names"
    and "\<forall>e\<in>set es. owner e = ''Shared'' \<or> owner e \<in> set P \<or> owner e \<notin> set inherited_names"
  shows "stats_obj es P = Inr (own_entries (stats es P))"
proof -
  have "own_entries (map (\<lambda>(k, r). (k, with_net r)) d) = map (\<lambda>(k, r). (k, with_net r)) (own_entries d)"
    for d :: data
    unfolding own_entries_def by (simp add: enum_order_map case_prod_unfold)
  then show ?thesis
    using fold_step_obj_plain[OF assms(2,3)]
    by (simp add: stats_obj_def stats_def init_table_plain[OF assms(1)])
qed


text \<open>
  Claim C10 fails on the code at this input: the single participant Me and one expense
  of 10, owned by Me and paid by somebody named "constructor". The claim gives a paid
  total of 10. The test \<^verbatim>\<open>!data[payer]\<close> finds the constructor that the table inherits,
  so no entry is made for the payer, the amount is added to a property of that
  function, and the result has the single entry of Me, who paid nothing: the paid
  total is 0.
\<close>

theorem paid_failing_input:
  "stats_obj [mk_expense ''Milk'' 10 ''2023-10-26'' ''Dairy & Eggs'' ''X'' ''constructor'' ''Me''] [''Me'']
     = Inr [(''Me'', \<lparr>paid = Some 0, consumed = Some 10, net = Some (- 10)\<rparr>)] \<and>
   num_sum (map (\<lambda>(k, b). paid b) [(''Me'', \<lparr>paid = Some 0, consumed = Some 10, net = Some (- 10)\<rparr>)])
     = Some 0 \<and>
   sum_list (map amount [mk_expense ''Milk'' 10 ''2023-10-26'' ''Dairy & Eggs'' ''X'' ''constructor'' ''Me''])
     = 10"
proof (intro conjI)
  show "stats_obj [mk_expense ''Milk'' 10 ''2023-10-26'' ''Dairy & Eggs'' ''X'' ''constructor'' ''Me''] [''Me'']
     = Inr [(''Me'', \<lparr>paid = Some 0, consumed = Some 10, net = Some (- 10)\<rparr>)]"
    by (rule stats_obj_run)
  show "num_sum (map (\<lambda>(k, b). paid b) [(''Me'', \<lparr>paid = Some 0, consumed = Some 10, net = Some (- 10)\<rparr>)])
     = Some 0"
    by (simp add: num_sum_def)
  show "sum_list (map amount [mk_expense ''Milk'' 10 ''2023-10-26'' ''Dairy & Eggs'' ''X'' ''constructor'' ''Me''])
     = 10"
    by (simp add: mk_expense_def)
qed


end
